theory Spec2Isabelle
  imports Complex_Main
begin

section \<open>Configuration, tokenizer and errors\<close>

text \<open>
  The development follows \<^verbatim>\<open>model.py\<close>. Python exceptions and the errors
  raised inside torch are values of \<open>error\<close>; a function that can raise returns
  \<open>error + 'a\<close> with \<open>Inl\<close> for the exception.
\<close>

datatype error = ValueError | RuntimeError | IndexError | ZeroDivisionError | AssertionError

record ModelArgs =
  dim :: int
  n_layers :: int
  n_heads :: int
  n_kv_heads :: "int option"
  vocab_size :: int
  multiple_of :: int
  ffn_dim_multiplier :: "real option"
  norm_eps :: real
  max_batch_size :: int
  max_seq_len :: int
  img_len :: int
  img_dim :: int
  max_gen_len :: int

text \<open>The fields of \<^verbatim>\<open>Tokenizer\<close> that \<^verbatim>\<open>generate\<close> reads.\<close>

record Tokenizer =
  n_words :: int
  bos_id :: int
  eos_id :: int
  pad_id :: int

section \<open>The generation loop\<close>

subsection \<open>Python and torch primitives used by \<^verbatim>\<open>generate\<close>\<close>

text \<open>\<^verbatim>\<open>min(...)\<close> and \<^verbatim>\<open>max(...)\<close> of a generator: ValueError on an empty one.\<close>

definition py_min :: "nat list \<Rightarrow> error + nat" where
  "py_min xs = (case xs of [] \<Rightarrow> Inl ValueError | y # ys \<Rightarrow> Inr (fold min ys y))"

definition py_max :: "nat list \<Rightarrow> error + nat" where
  "py_max xs = (case xs of [] \<Rightarrow> Inl ValueError | y # ys \<Rightarrow> Inr (fold max ys y))"

text \<open>
  \<^verbatim>\<open>xs[a:b]\<close> for Python integers \<open>a\<close>, \<open>b\<close>: a negative bound counts from the
  end, and both bounds are clamped to the list.
\<close>

definition py_bound :: "nat \<Rightarrow> int \<Rightarrow> nat" where
  "py_bound n a = (if a < 0 then nat (max 0 (a + int n)) else min n (nat a))"

definition py_slice :: "'a list \<Rightarrow> int \<Rightarrow> int \<Rightarrow> 'a list" where
  "py_slice xs a b = take (py_bound (length xs) b - py_bound (length xs) a) (drop (py_bound (length xs) a) xs)"

text \<open>\<^verbatim>\<open>xs.index(v)\<close>, called only after \<^verbatim>\<open>v in xs\<close> has been checked.\<close>

fun py_index :: "'a list \<Rightarrow> 'a \<Rightarrow> nat" where
  "py_index [] v = 0"
| "py_index (x # xs) v = (if x = v then 0 else Suc (py_index xs v))"

text \<open>
  \<^verbatim>\<open>torch.argmax(..., dim=-1)\<close> on one vector of logits: the index of the maximal
  value, the first one when several are maximal; an empty vector cannot be reduced.
  Logits are only compared, so any linear order stands for the float type.
\<close>

fun argmax_from :: "'a::linorder list \<Rightarrow> nat \<Rightarrow> nat \<Rightarrow> 'a \<Rightarrow> nat" where
  "argmax_from [] i best bv = best"
| "argmax_from (x # xs) i best bv =
     (if bv < x then argmax_from xs (Suc i) i x else argmax_from xs (Suc i) best bv)"

definition argmax_idx :: "'a::linorder list \<Rightarrow> nat" where
  "argmax_idx xs = (case xs of [] \<Rightarrow> 0 | y # ys \<Rightarrow> argmax_from ys 1 0 y)"

definition argmax :: "'a::linorder list \<Rightarrow> error + int" where
  "argmax xs = (if xs = [] then Inl IndexError else Inr (int (argmax_idx xs)))"

text \<open>Running a fallible function over a list, stopping at the first error.\<close>

fun map_err :: "('a \<Rightarrow> error + 'b) \<Rightarrow> 'a list \<Rightarrow> error + 'b list" where
  "map_err f [] = Inr []"
| "map_err f (x # xs) =
     (case f x of Inl e \<Rightarrow> Inl e
      | Inr y \<Rightarrow> (case map_err f xs of Inl e \<Rightarrow> Inl e | Inr ys \<Rightarrow> Inr (y # ys)))"

text \<open>\<^verbatim>\<open>logits[:, -1]\<close>: the last position of every row; IndexError when there is none.\<close>

definition last_pos :: "'a list \<Rightarrow> error + 'a" where
  "last_pos xs = (if xs = [] then Inl IndexError else Inr (last xs))"

subsection \<open>The token buffer\<close>

text \<open>
  \<^verbatim>\<open>gen_toks[k, : len(t)] = torch.tensor(t)\<close> on a row of \<open>ttl_len\<close> pad ids. A
  prompt longer than the row does not fit its slice and torch raises, except for a
  one-token prompt, which is broadcast into the (then empty) slice.
\<close>

definition copy_prompt :: "int \<Rightarrow> nat \<Rightarrow> int list \<Rightarrow> error + int list" where
  "copy_prompt pad ttl_len t =
     (if length t \<le> ttl_len then Inr (t @ replicate (ttl_len - length t) pad)
      else if length t = 1 then Inr (replicate ttl_len pad)
      else Inl RuntimeError)"

text \<open>
  The loop's variables: the buffer \<^verbatim>\<open>gen_toks\<close>, the flags \<^verbatim>\<open>eos_reached\<close> and
  the loop variable \<^verbatim>\<open>cur_pos\<close>, which is unbound (\<open>None\<close>) until the first
  iteration and keeps the position of the last iteration that ran.
\<close>

record gen_state =
  gen_toks :: "int list list"
  eos_reached :: "bool list"
  cur_pos :: "nat option"

text \<open>
  The candidate tokens of one iteration: the model runs on \<^verbatim>\<open>gen_toks[:, :cur_pos]\<close>,
  and each row's candidate is the argmax of its logits at the last position. The
  parameter \<open>model\<close> stands for \<^verbatim>\<open>model.forward\<close>, whose logits have one row per
  buffer row; another batch size is reported as RuntimeError (torch's broadcast of a single
  row is not modelled).
\<close>

definition candidates :: "(int list list \<Rightarrow> 'a::linorder list list list) \<Rightarrow> int list list \<Rightarrow> nat
    \<Rightarrow> error + int list" where
  "candidates model toks pos =
     (let logits = model (map (take pos) toks) in
      case map_err last_pos logits of Inl e \<Rightarrow> Inl e
      | Inr lst \<Rightarrow>
          (case map_err argmax lst of Inl e \<Rightarrow> Inl e
           | Inr nxt \<Rightarrow> if length nxt = length toks then Inr nxt else Inl RuntimeError))"

text \<open>One iteration of the loop body, up to the \<^verbatim>\<open>break\<close> test.\<close>

definition gen_step :: "(int list list \<Rightarrow> 'a::linorder list list list) \<Rightarrow> int \<Rightarrow> bool list list
    \<Rightarrow> nat \<Rightarrow> gen_state \<Rightarrow> error + gen_state" where
  "gen_step model eos input_text_mask pos st =
     (case candidates model (gen_toks st) pos of Inl e \<Rightarrow> Inl e
      | Inr cand \<Rightarrow>
          (let m = map (\<lambda>row. row ! pos) input_text_mask;
               cur = map (\<lambda>row. row ! pos) (gen_toks st);
               nxt_tok = map (\<lambda>(c, old, new). if c then old else new) (zip m (zip cur cand))
           in Inr \<lparr>gen_toks = map (\<lambda>(row, t). row[pos := t]) (zip (gen_toks st) nxt_tok),
                   eos_reached = map (\<lambda>(done, c, t). done \<or> (\<not> c \<and> t = eos))
                                   (zip (eos_reached st) (zip m nxt_tok)),
                   cur_pos = Some pos\<rparr>))"

text \<open>
  \<^verbatim>\<open>for cur_pos in range(min_tok_len, ttl_len)\<close> over the remaining positions, with
  the \<^verbatim>\<open>break\<close> once every flag is set.
\<close>

fun gen_loop :: "(int list list \<Rightarrow> 'a::linorder list list list) \<Rightarrow> int \<Rightarrow> bool list list
    \<Rightarrow> nat list \<Rightarrow> gen_state \<Rightarrow> error + gen_state" where
  "gen_loop model eos input_text_mask [] st = Inr st"
| "gen_loop model eos input_text_mask (pos # rest) st =
     (case gen_step model eos input_text_mask pos st of Inl e \<Rightarrow> Inl e
      | Inr st' \<Rightarrow>
          if list_all (\<lambda>b. b) (eos_reached st') then Inr st'
          else gen_loop model eos input_text_mask rest st')"

subsection \<open>\<^verbatim>\<open>generate\<close>\<close>

definition gen_len :: "ModelArgs \<Rightarrow> int option \<Rightarrow> int" where
  "gen_len model_args max_gen =
     (case max_gen of
        Some g \<Rightarrow> if g \<noteq> 0 then g else max_seq_len model_args - 1
      | None \<Rightarrow> max_seq_len model_args - 1)"

text \<open>The local variables of \<^verbatim>\<open>generate\<close> when its loop has ended.\<close>

record gen_run =
  min_tok_len :: nat
  max_tok_len :: nat
  ttl_len :: int
  gen_toks0 :: "int list list"
  input_text_mask :: "bool list list"
  final :: gen_state

definition run_loop :: "(int list list \<Rightarrow> 'a::linorder list list list) \<Rightarrow> Tokenizer \<Rightarrow> ModelArgs
    \<Rightarrow> int list list \<Rightarrow> int option \<Rightarrow> error + gen_run" where
  "run_loop model tokenizer model_args prompt_toks max_gen =
     (case py_min (map length prompt_toks) of Inl e \<Rightarrow> Inl e
      | Inr mn \<Rightarrow>
     (case py_max (map length prompt_toks) of Inl e \<Rightarrow> Inl e
      | Inr mx \<Rightarrow>
     (let ttl = min (max_seq_len model_args) (gen_len model_args max_gen + int mx) in
      if ttl < 0 then Inl RuntimeError
      else
       (case map_err (copy_prompt (pad_id tokenizer) (nat ttl)) prompt_toks of Inl e \<Rightarrow> Inl e
        | Inr buf \<Rightarrow>
           (let mask = map (map (\<lambda>t. t \<noteq> pad_id tokenizer)) buf in
            case gen_loop model (eos_id tokenizer) mask [mn..<nat ttl]
                   \<lparr>gen_toks = buf, eos_reached = replicate (length prompt_toks) False,
                    cur_pos = None\<rparr> of
              Inl e \<Rightarrow> Inl e
            | Inr st \<Rightarrow>
                Inr \<lparr>min_tok_len = mn, max_tok_len = mx, ttl_len = ttl, gen_toks0 = buf,
                     input_text_mask = mask, final = st\<rparr>)))))"

text \<open>
  The post-processing of one row of the buffer; \<open>gen_cap\<close> is the local
  \<^verbatim>\<open>max_gen_len\<close> of \<^verbatim>\<open>generate\<close>.
\<close>

definition post_row :: "int \<Rightarrow> int \<Rightarrow> int list \<Rightarrow> int list \<Rightarrow> int list" where
  "post_row eos gen_cap prompt toks =
     (let toks1 = py_slice toks (int (length prompt)) (int (length prompt) + gen_cap)
      in if eos \<in> set toks1 then take (py_index toks1 eos) toks1 else toks1)"

definition generate :: "(int list list \<Rightarrow> 'a::linorder list list list) \<Rightarrow> Tokenizer \<Rightarrow> ModelArgs
    \<Rightarrow> int list list \<Rightarrow> int option \<Rightarrow> error + int list list" where
  "generate model tokenizer model_args prompt_toks max_gen =
     (case run_loop model tokenizer model_args prompt_toks max_gen of Inl e \<Rightarrow> Inl e
      | Inr run \<Rightarrow>
          Inr (map (\<lambda>(toks, prompt). post_row (eos_id tokenizer) (gen_len model_args max_gen) prompt toks)
                 (zip (gen_toks (final run)) prompt_toks)))"

subsection \<open>Auxiliary notions for the properties of the loop\<close>

text \<open>
  \<open>gen_iter a k\<close> runs the loop body \<open>k\<close> times, at the positions
  \<open>a, a + 1, \<dots>, a + k - 1\<close>, without the \<^verbatim>\<open>break\<close> test:
  the states a run of \<open>gen_loop\<close> goes through (lemma \<open>gen_loop_iter\<close>).
\<close>

fun gen_iter :: "(int list list \<Rightarrow> 'a::linorder list list list) \<Rightarrow> int \<Rightarrow> bool list list
    \<Rightarrow> nat \<Rightarrow> nat \<Rightarrow> gen_state \<Rightarrow> error + gen_state" where
  "gen_iter model eos msk a 0 st = Inr st"
| "gen_iter model eos msk a (Suc k) st =
     (case gen_iter model eos msk a k st of Inl e \<Rightarrow> Inl e
      | Inr s \<Rightarrow> gen_step model eos msk (a + k) s)"

text \<open>The \<^verbatim>\<open>break\<close> test, \<^verbatim>\<open>all(eos_reached)\<close>.\<close>

definition all_done :: "gen_state \<Rightarrow> bool" where
  "all_done st = list_all (\<lambda>b. b) (eos_reached st)"

text \<open>
  \<^verbatim>\<open>logits[:, -1]\<close> of row \<open>r\<close> when the model runs on the prefix
  \<^verbatim>\<open>toks[:, :pos]\<close>, and the candidate token of that row, its argmax.
\<close>

definition last_logits :: "(int list list \<Rightarrow> 'a::linorder list list list) \<Rightarrow> int list list \<Rightarrow> nat \<Rightarrow> nat \<Rightarrow> 'a list" where
  "last_logits model toks pos r = last (model (map (take pos) toks) ! r)"

definition candidate :: "(int list list \<Rightarrow> 'a::linorder list list list) \<Rightarrow> int list list \<Rightarrow> nat \<Rightarrow> nat \<Rightarrow> int" where
  "candidate model toks pos r = int (argmax_idx (last (model (map (take pos) toks) ! r)))"

subsection \<open>Inputs for the examples\<close>

text \<open>
  A model that returns the same logits at every position, the defaults of the
  \<^verbatim>\<open>ModelArgs\<close> dataclass, and a tokenizer with pad id 0 and end id 2.
\<close>

definition const_model :: "'a list \<Rightarrow> int list list \<Rightarrow> 'a list list list" where
  "const_model v toks = map (map (\<lambda>t. v)) toks"

definition default_args :: ModelArgs where
  "default_args = \<lparr>dim = 4096, n_layers = 32, n_heads = 32, n_kv_heads = None, vocab_size = 32000,
     multiple_of = 256, ffn_dim_multiplier = None, norm_eps = 1 / 100000, max_batch_size = 32,
     max_seq_len = 1024, img_len = 577, img_dim = 1024, max_gen_len = 32\<rparr>"

definition tok0 :: Tokenizer where
  "tok0 = \<lparr>n_words = 4, bos_id = 1, eos_id = 2, pad_id = 0\<rparr>"

text \<open>A model whose argmax is the end id 2 once the prefix has \<open>n\<close> tokens, and 3 before.\<close>

definition eos_after :: "nat \<Rightarrow> int list list \<Rightarrow> int list list list" where
  "eos_after n toks = map (\<lambda>row. map (\<lambda>t. if n \<le> length row then [0, 0, 1, 0] else [0, 0, 0, 1]) row) toks"

section \<open>Model construction\<close>

text \<open>
  Tensors are a shape and the entry at every index (a list of coordinates, one per
  dimension). Python floats and the entries of float tensors are modelled as reals: their
  arithmetic is exact, and overflow, infinities and NaN are not modelled. Where a float
  decides an integer (\<^verbatim>\<open>int(...)\<close> in \<^verbatim>\<open>FeedForward.__init__\<close>), the rounding of every
  float operation is kept as a parameter \<open>fl\<close>, of which the theorems assume only the
  relative accuracy of a double, \<open>float_accurate\<close>.
\<close>

record 'a tensor =
  shape :: "nat list"
  entry :: "nat list \<Rightarrow> 'a"


















text \<open>
  \<^verbatim>\<open>precompute_freqs_cis(dim, end, theta)\<close>: one row per position \<open>t < end\<close>, one column
  per frequency \<open>1 / theta ** (2 k / dim)\<close>, \<open>k < dim // 2\<close>; the entry is the unit complex
  number of angle \<open>t\<close> times the frequency. \<^verbatim>\<open>torch.arange\<close> raises on a negative bound.
\<close>

definition precompute_freqs_cis :: "int \<Rightarrow> int \<Rightarrow> real \<Rightarrow> error + complex tensor" where
  "precompute_freqs_cis d n_pos theta =
     (if d < 0 \<or> n_pos < 0 then Inl RuntimeError
      else Inr \<lparr>shape = [nat n_pos, nat (d div 2)],
                entry = (\<lambda>idx. rcis 1 (real (idx ! 0) *
                                     (1 / theta powr (real (2 * (idx ! 1)) / real_of_int d))))\<rparr>)"




section \<open>Rotary position encoding\<close>

text \<open>
  The elements of a tensor in row-major order: \<open>ravel\<close> is the offset of an index in a
  contiguous tensor of the given shape and \<open>unravel\<close> the index at an offset.
  Tensors carry no strides: every tensor is contiguous, so \<^verbatim>\<open>reshape\<close>, \<^verbatim>\<open>view\<close> and
  \<^verbatim>\<open>flatten\<close> keep the element at every offset.
\<close>

fun ravel :: "nat list \<Rightarrow> nat list \<Rightarrow> nat" where
  "ravel (d # sh) (i # idx) = i * prod_list sh + ravel sh idx"
| "ravel sh idx = 0"

fun unravel :: "nat list \<Rightarrow> nat \<Rightarrow> nat list" where
  "unravel [] n = []"
| "unravel (d # sh) n = (n div prod_list sh) # unravel sh (n mod prod_list sh)"

definition valid_index :: "nat list \<Rightarrow> nat list \<Rightarrow> bool" where
  "valid_index sh idx = list_all2 (\<lambda>i d. i < d) idx sh"

text \<open>
  \<^verbatim>\<open>x.reshape(*x.shape[:-1], -1, 2)\<close>: the size at \<open>-1\<close> is inferred from the number of
  elements; torch raises when it is ambiguous (the known sizes multiply to 0) or when
  the elements do not divide.
\<close>

definition reshape_pairs :: "'a tensor \<Rightarrow> error + 'a tensor" where
  "reshape_pairs x =
     (let known = prod_list (butlast (shape x)) * 2 in
      if known = 0 \<or> prod_list (shape x) mod known \<noteq> 0 then Inl RuntimeError
      else
        (let sh = butlast (shape x) @ [prod_list (shape x) div known, 2]
         in Inr \<lparr>shape = sh, entry = (\<lambda>idx. entry x (unravel (shape x) (ravel sh idx)))\<rparr>))"

text \<open>\<^verbatim>\<open>torch.view_as_complex\<close>: the last dimension, of size 2, holds real and imaginary part.\<close>

definition view_as_complex :: "real tensor \<Rightarrow> error + complex tensor" where
  "view_as_complex x =
     (if shape x = [] \<or> last (shape x) \<noteq> 2 then Inl RuntimeError
      else Inr \<lparr>shape = butlast (shape x),
                entry = (\<lambda>idx. Complex (entry x (idx @ [0])) (entry x (idx @ [1])))\<rparr>)"

text \<open>\<^verbatim>\<open>torch.view_as_real\<close>: the inverse view, with a new last dimension of size 2.\<close>

definition view_as_real :: "complex tensor \<Rightarrow> real tensor" where
  "view_as_real x =
     \<lparr>shape = shape x @ [2],
      entry = (\<lambda>idx. if last idx = 0 then Re (entry x (butlast idx)) else Im (entry x (butlast idx)))\<rparr>"

text \<open>\<^verbatim>\<open>x.view(*sh)\<close>: RuntimeError unless the number of elements is kept.\<close>

definition view :: "'a tensor \<Rightarrow> nat list \<Rightarrow> error + 'a tensor" where
  "view x sh =
     (if prod_list sh \<noteq> prod_list (shape x) then Inl RuntimeError
      else Inr \<lparr>shape = sh, entry = (\<lambda>idx. entry x (unravel (shape x) (ravel sh idx)))\<rparr>)"

text \<open>
  \<^verbatim>\<open>x.flatten(s)\<close>: the dimensions from \<open>s\<close> on become one; IndexError when there is no
  dimension \<open>s\<close>.
\<close>

definition flatten_from :: "nat \<Rightarrow> 'a tensor \<Rightarrow> error + 'a tensor" where
  "flatten_from s x =
     (if \<not> s < length (shape x) then Inl IndexError
      else
        (let sh = take s (shape x) @ [prod_list (drop s (shape x))]
         in Inr \<lparr>shape = sh, entry = (\<lambda>idx. entry x (unravel (shape x) (ravel sh idx)))\<rparr>))"

text \<open>
  Broadcasting of two shapes, aligned at the last dimension: sizes must agree or one of
  them be 1. \<open>broadcast_index sh idx\<close> is the index into an operand of shape \<open>sh\<close> that
  the index \<open>idx\<close> of the result reads.
\<close>

fun broadcast_rev :: "nat list \<Rightarrow> nat list \<Rightarrow> error + nat list" where
  "broadcast_rev [] ys = Inr ys"
| "broadcast_rev (x # xs) [] = Inr (x # xs)"
| "broadcast_rev (x # xs) (y # ys) =
     (if x = y \<or> y = 1 then (case broadcast_rev xs ys of Inl e \<Rightarrow> Inl e | Inr zs \<Rightarrow> Inr (x # zs))
      else if x = 1 then (case broadcast_rev xs ys of Inl e \<Rightarrow> Inl e | Inr zs \<Rightarrow> Inr (y # zs))
      else Inl RuntimeError)"

definition broadcast_shapes :: "nat list \<Rightarrow> nat list \<Rightarrow> error + nat list" where
  "broadcast_shapes a b =
     (case broadcast_rev (rev a) (rev b) of Inl e \<Rightarrow> Inl e | Inr zs \<Rightarrow> Inr (rev zs))"

definition broadcast_index :: "nat list \<Rightarrow> nat list \<Rightarrow> nat list" where
  "broadcast_index sh idx =
     map (\<lambda>(d, i). if d = 1 then 0 else i) (zip sh (drop (length idx - length sh) idx))"

definition mul_tensor :: "complex tensor \<Rightarrow> complex tensor \<Rightarrow> error + complex tensor" where
  "mul_tensor a b =
     (case broadcast_shapes (shape a) (shape b) of Inl e \<Rightarrow> Inl e
      | Inr sh \<Rightarrow>
          Inr \<lparr>shape = sh,
               entry = (\<lambda>idx. entry a (broadcast_index (shape a) idx) *
                               entry b (broadcast_index (shape b) idx))\<rparr>)"

text \<open>\<^verbatim>\<open>Attention.reshape_for_broadcast\<close>, with its two assertions.\<close>

definition reshape_for_broadcast :: "'a tensor \<Rightarrow> 'b tensor \<Rightarrow> error + 'a tensor" where
  "reshape_for_broadcast fc x =
     (let ndim = length (shape x) in
      if \<not> 1 < ndim then Inl AssertionError
      else if shape fc \<noteq> [shape x ! 1, last (shape x)] then Inl AssertionError
      else view fc (map (\<lambda>(i, d). if i = 1 \<or> i = ndim - 1 then d else 1) (enumerate 0 (shape x))))"

text \<open>
  \<^verbatim>\<open>Attention.apply_rotary_emb\<close>. \<^verbatim>\<open>.float()\<close> and \<^verbatim>\<open>.type_as(...)\<close> change the
  precision only and are the identity on the reals.
\<close>

definition rotate :: "complex tensor \<Rightarrow> complex tensor \<Rightarrow> error + real tensor" where
  "rotate xc fc =
     (case mul_tensor xc fc of Inl e \<Rightarrow> Inl e
      | Inr y \<Rightarrow> flatten_from 3 (view_as_real y))"

definition pairs_as_complex :: "real tensor \<Rightarrow> error + complex tensor" where
  "pairs_as_complex x =
     (case reshape_pairs x of Inl e \<Rightarrow> Inl e | Inr y \<Rightarrow> view_as_complex y)"

definition apply_rotary_emb ::
  "real tensor \<Rightarrow> real tensor \<Rightarrow> complex tensor \<Rightarrow> error + real tensor \<times> real tensor" where
  "apply_rotary_emb xq xk fc =
     (case pairs_as_complex xq of Inl e \<Rightarrow> Inl e | Inr xqc \<Rightarrow>
      (case pairs_as_complex xk of Inl e \<Rightarrow> Inl e | Inr xkc \<Rightarrow>
      (case reshape_for_broadcast fc xqc of Inl e \<Rightarrow> Inl e | Inr fcb \<Rightarrow>
      (case rotate xqc fcb of Inl e \<Rightarrow> Inl e | Inr xq_out \<Rightarrow>
      (case rotate xkc fcb of Inl e \<Rightarrow> Inl e | Inr xk_out \<Rightarrow>
         Inr (xq_out, xk_out))))))"

text \<open>
  \<^verbatim>\<open>freqs_cis[:seqlen]\<close> in \<^verbatim>\<open>Transformer.forward\<close>: the first rows of the table;
  a tensor without dimensions cannot be sliced.
\<close>

definition take_rows :: "nat \<Rightarrow> 'a tensor \<Rightarrow> error + 'a tensor" where
  "take_rows n x =
     (case shape x of [] \<Rightarrow> Inl IndexError | d # sh \<Rightarrow> Inr (x\<lparr>shape := min n d # sh\<rparr>))"

text \<open>A tensor for the examples: the element at offset \<open>m\<close> is \<open>m\<close>.\<close>

definition iota :: "nat list \<Rightarrow> real tensor" where
  "iota sh = \<lparr>shape = sh, entry = (\<lambda>idx. real (ravel sh idx))\<rparr>"

text \<open>Tables for the examples: one of unit entries, and four rows computed for \<open>head_dim = 4\<close>.\<close>

definition unit_table :: "nat list \<Rightarrow> complex tensor" where
  "unit_table sh = \<lparr>shape = sh, entry = (\<lambda>idx. 1)\<rparr>"

definition rot_table :: "complex tensor" where
  "rot_table = projr (precompute_freqs_cis 4 4 10000)"

definition rot_rows :: "complex tensor" where
  "rot_rows = projr (take_rows 2 rot_table)"

section \<open>Properties of the generation loop\<close>

subsection \<open>Primitives\<close>

lemma argmax_from_spec:
  assumes "best < length pre" "bv = pre ! best" "\<forall>j<length pre. pre ! j \<le> bv" "\<forall>j<best. pre ! j < bv"
  shows "argmax_from xs (length pre) best bv < length (pre @ xs) \<and>
         (\<forall>j<length (pre @ xs). (pre @ xs) ! j \<le> (pre @ xs) ! argmax_from xs (length pre) best bv) \<and>
         (\<forall>j<argmax_from xs (length pre) best bv. (pre @ xs) ! j < (pre @ xs) ! argmax_from xs (length pre) best bv)"
  using assms
proof (induction xs arbitrary: pre best bv)
  case Nil
  then show ?case by simp
next
  case (Cons x xs)
  show ?case
  proof (cases "bv < x")
    case True
    have "argmax_from xs (length (pre @ [x])) (length pre) x < length ((pre @ [x]) @ xs) \<and>
         (\<forall>j<length ((pre @ [x]) @ xs). ((pre @ [x]) @ xs) ! j \<le> ((pre @ [x]) @ xs) ! argmax_from xs (length (pre @ [x])) (length pre) x) \<and>
         (\<forall>j<argmax_from xs (length (pre @ [x])) (length pre) x. ((pre @ [x]) @ xs) ! j < ((pre @ [x]) @ xs) ! argmax_from xs (length (pre @ [x])) (length pre) x)"
    proof (rule Cons.IH)
      show "length pre < length (pre @ [x])" by simp
      show "x = (pre @ [x]) ! length pre" by simp
      show "\<forall>j<length (pre @ [x]). (pre @ [x]) ! j \<le> x"
        using Cons.prems(3) True by (auto simp: nth_append less_Suc_eq)
      show "\<forall>j<length pre. (pre @ [x]) ! j < x"
        using Cons.prems(3) True by (auto simp: nth_append)
    qed
    with True show ?thesis by simp
  next
    case False
    have "argmax_from xs (length (pre @ [x])) best bv < length ((pre @ [x]) @ xs) \<and>
         (\<forall>j<length ((pre @ [x]) @ xs). ((pre @ [x]) @ xs) ! j \<le> ((pre @ [x]) @ xs) ! argmax_from xs (length (pre @ [x])) best bv) \<and>
         (\<forall>j<argmax_from xs (length (pre @ [x])) best bv. ((pre @ [x]) @ xs) ! j < ((pre @ [x]) @ xs) ! argmax_from xs (length (pre @ [x])) best bv)"
    proof (rule Cons.IH)
      show "best < length (pre @ [x])" using Cons.prems(1) by simp
      show "bv = (pre @ [x]) ! best" using Cons.prems(1,2) by (simp add: nth_append)
      show "\<forall>j<length (pre @ [x]). (pre @ [x]) ! j \<le> bv"
        using Cons.prems(3) False by (auto simp: nth_append less_Suc_eq)
      show "\<forall>j<best. (pre @ [x]) ! j < bv"
        using Cons.prems(1,4) by (auto simp: nth_append)
    qed
    with False show ?thesis by simp
  qed
qed

lemma argmax_idx_spec:
  assumes "xs \<noteq> []"
  shows "argmax_idx xs < length xs \<and> (\<forall>j<length xs. xs ! j \<le> xs ! argmax_idx xs) \<and>
         (\<forall>j<argmax_idx xs. xs ! j < xs ! argmax_idx xs)"
proof -
  obtain y ys where xs: "xs = y # ys" using assms by (cases xs) auto
  have "argmax_from ys (length [y]) 0 y < length ([y] @ ys) \<and>
         (\<forall>j<length ([y] @ ys). ([y] @ ys) ! j \<le> ([y] @ ys) ! argmax_from ys (length [y]) 0 y) \<and>
         (\<forall>j<argmax_from ys (length [y]) 0 y. ([y] @ ys) ! j < ([y] @ ys) ! argmax_from ys (length [y]) 0 y)"
    by (rule argmax_from_spec) auto
  then show ?thesis by (simp add: xs argmax_idx_def)
qed

lemma map_err_Inr:
  "map_err f xs = Inr ys \<Longrightarrow> length ys = length xs \<and> (\<forall>i<length xs. f (xs ! i) = Inr (ys ! i))"
proof (induction xs arbitrary: ys)
  case Nil
  then show ?case by simp
next
  case (Cons x xs)
  then show ?case
    by (auto split: sum.splits simp: nth_Cons split: nat.splits)
qed

lemma map_err_Inr_iff:
  "(\<exists>ys. map_err f xs = Inr ys) \<longleftrightarrow> (\<forall>x\<in>set xs. \<exists>y. f x = Inr y)"
  by (induction xs) (auto split: sum.splits)

lemma candidates_Inr:
  assumes "candidates model toks pos = Inr cand"
  shows "length cand = length toks"
    and "length (model (map (take pos) toks)) = length toks"
    and "\<And>r. r < length toks \<Longrightarrow> model (map (take pos) toks) ! r \<noteq> [] \<and>
            last (model (map (take pos) toks) ! r) \<noteq> [] \<and>
            cand ! r = int (argmax_idx (last (model (map (take pos) toks) ! r)))"
proof -
  obtain lst where lst: "map_err last_pos (model (map (take pos) toks)) = Inr lst"
    and nxt: "map_err argmax lst = Inr cand" and len: "length cand = length toks"
    using assms by (auto simp: candidates_def Let_def split: sum.splits if_splits)
  show "length cand = length toks" by (rule len)
  from map_err_Inr[OF lst] map_err_Inr[OF nxt] len
  show l2: "length (model (map (take pos) toks)) = length toks" by simp
  fix r assume r: "r < length toks"
  from map_err_Inr[OF lst] r l2 have a: "last_pos (model (map (take pos) toks) ! r) = Inr (lst ! r)" by simp
  from map_err_Inr[OF nxt] map_err_Inr[OF lst] r l2 have b: "argmax (lst ! r) = Inr (cand ! r)" by simp
  from a b show "model (map (take pos) toks) ! r \<noteq> [] \<and>
            last (model (map (take pos) toks) ! r) \<noteq> [] \<and>
            cand ! r = int (argmax_idx (last (model (map (take pos) toks) ! r)))"
    by (auto simp: last_pos_def argmax_def split: if_splits)
qed

lemma gen_step_Inr:
  assumes "gen_step model eos msk pos st = Inr st'"
    and "length msk = length (gen_toks st)" and "length (eos_reached st) = length (gen_toks st)"
  shows "\<exists>cand. candidates model (gen_toks st) pos = Inr cand \<and>
           length (gen_toks st') = length (gen_toks st) \<and>
           length (eos_reached st') = length (gen_toks st) \<and>
           cur_pos st' = Some pos \<and>
           (\<forall>r<length (gen_toks st).
              gen_toks st' ! r =
                (gen_toks st ! r)[pos := (if msk ! r ! pos then gen_toks st ! r ! pos else cand ! r)] \<and>
              eos_reached st' ! r = (eos_reached st ! r \<or> (\<not> msk ! r ! pos \<and> cand ! r = eos)))"
proof -
  obtain cand where c: "candidates model (gen_toks st) pos = Inr cand"
    using assms(1) by (auto simp: gen_step_def split: sum.splits)
  have len: "length cand = length (gen_toks st)" using candidates_Inr(1)[OF c] .
  have st': "st' = \<lparr>gen_toks = map (\<lambda>(row, t). row[pos := t]) (zip (gen_toks st)
                 (map (\<lambda>(c, old, new). if c then old else new)
                    (zip (map (\<lambda>row. row ! pos) msk) (zip (map (\<lambda>row. row ! pos) (gen_toks st)) cand)))),
               eos_reached = map (\<lambda>(done, c, t). done \<or> (\<not> c \<and> t = eos))
                 (zip (eos_reached st) (zip (map (\<lambda>row. row ! pos) msk)
                    (map (\<lambda>(c, old, new). if c then old else new)
                    (zip (map (\<lambda>row. row ! pos) msk) (zip (map (\<lambda>row. row ! pos) (gen_toks st)) cand))))),
               cur_pos = Some pos\<rparr>"
    using assms(1) c by (simp add: gen_step_def Let_def)
  show ?thesis
    apply (rule exI[of _ cand])
    using len assms(2,3) by (auto simp: c st')
qed

subsection \<open>Iterations of the loop body\<close>

lemma candidates_candidate:
  "candidates model toks pos = Inr cand \<Longrightarrow> r < length toks \<Longrightarrow> cand ! r = candidate model toks pos r"
  using candidates_Inr(3)[of model toks pos cand r] by (simp add: candidate_def)

lemma candidates_prefix:
  "length toks = length toks' \<Longrightarrow> map (take pos) toks = map (take pos) toks' \<Longrightarrow>
   candidates model toks pos = candidates model toks' pos"
  by (auto simp: candidates_def split: sum.splits)

lemma candidate_prefix:
  "map (take pos) toks = map (take pos) toks' \<Longrightarrow> candidate model toks pos r = candidate model toks' pos r"
  by (simp add: candidate_def)

lemma gen_step_prefix:
  assumes "gen_step model eos msk pos st = Inr st'"
    and "length msk = length (gen_toks st)" and "length (eos_reached st) = length (gen_toks st)"
    and "p \<le> pos"
  shows "map (take p) (gen_toks st') = map (take p) (gen_toks st)"
proof -
  from gen_step_Inr[OF assms(1-3)] obtain cand where
    l: "length (gen_toks st') = length (gen_toks st)" and
    u: "\<forall>r<length (gen_toks st). gen_toks st' ! r =
          (gen_toks st ! r)[pos := (if msk ! r ! pos then gen_toks st ! r ! pos else cand ! r)]"
    by blast
  show ?thesis
    by (rule nth_equalityI) (use l u assms(4) in auto)
qed

lemma gen_iter_Suc_Inr:
  assumes "gen_iter model eos msk a (Suc k) st = Inr s'"
  obtains s where "gen_iter model eos msk a k st = Inr s" "gen_step model eos msk (a + k) s = Inr s'"
  using assms by (auto split: sum.splits)

lemma gen_iter_lengths:
  assumes "gen_iter model eos msk a k st = Inr s"
    and "length msk = length (gen_toks st)" and "length (eos_reached st) = length (gen_toks st)"
  shows "length (gen_toks s) = length (gen_toks st) \<and> length (eos_reached s) = length (gen_toks st) \<and>
         (\<forall>r<length (gen_toks st). length (gen_toks s ! r) = length (gen_toks st ! r))"
  using assms(1)
proof (induction k arbitrary: s)
  case 0
  then show ?case using assms(3) by simp
next
  case (Suc k)
  from Suc.prems obtain s0 where s0: "gen_iter model eos msk a k st = Inr s0"
    and st: "gen_step model eos msk (a + k) s0 = Inr s" by (rule gen_iter_Suc_Inr)
  note ih = Suc.IH[OF s0]
  from ih assms(2) have m: "length msk = length (gen_toks s0)" by simp
  from ih have e: "length (eos_reached s0) = length (gen_toks s0)" by simp
  from gen_step_Inr[OF st m e] ih show ?case by auto
qed

lemma gen_iter_earlier:
  assumes "gen_iter model eos msk a k st = Inr s" and "j \<le> k"
  shows "\<exists>sj. gen_iter model eos msk a j st = Inr sj"
  using assms
proof (induction k arbitrary: s)
  case 0
  then show ?case by simp
next
  case (Suc k)
  from Suc.prems(1) obtain s0 where s0: "gen_iter model eos msk a k st = Inr s0"
    by (rule gen_iter_Suc_Inr)
  show ?case
  proof (cases "j = Suc k")
    case True
    with Suc.prems(1) show ?thesis by blast
  next
    case False
    with Suc.prems(2) have "j \<le> k" by simp
    from Suc.IH[OF s0 this] show ?thesis .
  qed
qed

lemma gen_iter_prefix:
  assumes "gen_iter model eos msk a k st = Inr s"
    and "length msk = length (gen_toks st)" and "length (eos_reached st) = length (gen_toks st)"
    and "gen_iter model eos msk a j st = Inr sj" and "j \<le> k"
  shows "map (take (a + j)) (gen_toks s) = map (take (a + j)) (gen_toks sj)"
  using assms(1,5)
proof (induction k arbitrary: s)
  case 0
  with assms(4) show ?case by simp
next
  case (Suc k)
  from Suc.prems(1) obtain s0 where s0: "gen_iter model eos msk a k st = Inr s0"
    and st: "gen_step model eos msk (a + k) s0 = Inr s" by (rule gen_iter_Suc_Inr)
  show ?case
  proof (cases "j = Suc k")
    case True
    with Suc.prems(1) assms(4) show ?thesis by simp
  next
    case False
    with Suc.prems(2) have jk: "j \<le> k" by simp
    note l = gen_iter_lengths[OF s0 assms(2,3)]
    from l assms(2) have m: "length msk = length (gen_toks s0)" by simp
    from l have e: "length (eos_reached s0) = length (gen_toks s0)" by simp
    from jk have "a + j \<le> a + k" by simp
    from gen_step_prefix[OF st m e this] Suc.IH[OF s0 jk] show ?thesis by simp
  qed
qed

lemma gen_iter_cur_pos:
  assumes "gen_iter model eos msk a k st = Inr s"
    and "length msk = length (gen_toks st)" and "length (eos_reached st) = length (gen_toks st)"
  shows "cur_pos s = (if k = 0 then cur_pos st else Some (a + k - 1))"
proof (cases k)
  case 0
  with assms(1) show ?thesis by simp
next
  case (Suc k')
  from assms(1)[unfolded Suc] obtain s0 where s0: "gen_iter model eos msk a k' st = Inr s0"
    and st: "gen_step model eos msk (a + k') s0 = Inr s" by (rule gen_iter_Suc_Inr)
  note l = gen_iter_lengths[OF s0 assms(2,3)]
  from l assms(2) have m: "length msk = length (gen_toks s0)" by simp
  from l have e: "length (eos_reached s0) = length (gen_toks s0)" by simp
  from gen_step_Inr[OF st m e] Suc show ?thesis by auto
qed

text \<open>Columns outside the iterated range are untouched.\<close>
lemma gen_iter_outside:
  assumes "gen_iter model eos msk a k st = Inr s"
    and "length msk = length (gen_toks st)" and "length (eos_reached st) = length (gen_toks st)"
    and "r < length (gen_toks st)" and "c < a \<or> a + k \<le> c"
  shows "gen_toks s ! r ! c = gen_toks st ! r ! c"
  using assms(1,5)
proof (induction k arbitrary: s)
  case 0
  then show ?case by simp
next
  case (Suc k)
  from Suc.prems(1) obtain s0 where s0: "gen_iter model eos msk a k st = Inr s0"
    and st: "gen_step model eos msk (a + k) s0 = Inr s" by (rule gen_iter_Suc_Inr)
  note l = gen_iter_lengths[OF s0 assms(2,3)]
  from l assms(2) have m: "length msk = length (gen_toks s0)" by simp
  from l have e: "length (eos_reached s0) = length (gen_toks s0)" by simp
  from Suc.prems(2) have c: "c < a \<or> a + k \<le> c" and ne: "c \<noteq> a + k" by auto
  from gen_step_Inr[OF st m e] l assms(4) ne have "gen_toks s ! r ! c = gen_toks s0 ! r ! c" by auto
  with Suc.IH[OF s0 c] show ?case by simp
qed

text \<open>What an iteration wrote stays in the buffer, and is what the final buffer's prefix gives.\<close>
lemma gen_iter_written:
  assumes "gen_iter model eos msk a k st = Inr s"
    and "length msk = length (gen_toks st)" and "length (eos_reached st) = length (gen_toks st)"
    and "j < k"
  shows "(\<exists>cand. candidates model (gen_toks s) (a + j) = Inr cand) \<and>
         (\<forall>r<length (gen_toks st). a + j < length (gen_toks st ! r) \<longrightarrow>
            gen_toks s ! r ! (a + j) =
              (if msk ! r ! (a + j) then gen_toks st ! r ! (a + j) else candidate model (gen_toks s) (a + j) r))"
proof -
  from assms(4) have "Suc j \<le> k" by simp
  from gen_iter_earlier[OF assms(1) this] obtain s1 where s1: "gen_iter model eos msk a (Suc j) st = Inr s1" by blast
  then obtain s0 where s0: "gen_iter model eos msk a j st = Inr s0"
    and st: "gen_step model eos msk (a + j) s0 = Inr s1" by (rule gen_iter_Suc_Inr)
  note l0 = gen_iter_lengths[OF s0 assms(2,3)]
  note l = gen_iter_lengths[OF assms(1-3)]
  from l0 assms(2) have m: "length msk = length (gen_toks s0)" by simp
  from l0 have e: "length (eos_reached s0) = length (gen_toks s0)" by simp
  from gen_step_Inr[OF st m e] obtain cand where
    c: "candidates model (gen_toks s0) (a + j) = Inr cand" and
    u: "\<forall>r<length (gen_toks s0). gen_toks s1 ! r =
          (gen_toks s0 ! r)[a + j := (if msk ! r ! (a + j) then gen_toks s0 ! r ! (a + j) else cand ! r)]"
    by blast
  have pre: "map (take (a + j)) (gen_toks s) = map (take (a + j)) (gen_toks s0)"
    using gen_iter_prefix[OF assms(1-3) s0] assms(4) by simp
  have c': "candidates model (gen_toks s) (a + j) = Inr cand"
    using candidates_prefix[of "gen_toks s" "gen_toks s0" "a + j" model] pre l l0 c by simp
  have pre1: "map (take (a + Suc j)) (gen_toks s) = map (take (a + Suc j)) (gen_toks s1)"
    using gen_iter_prefix[OF assms(1-3) s1 \<open>Suc j \<le> k\<close>] .
  have "\<forall>r<length (gen_toks st). a + j < length (gen_toks st ! r) \<longrightarrow>
            gen_toks s ! r ! (a + j) =
              (if msk ! r ! (a + j) then gen_toks st ! r ! (a + j) else candidate model (gen_toks s) (a + j) r)"
  proof (intro allI impI)
    fix r assume r: "r < length (gen_toks st)" and n: "a + j < length (gen_toks st ! r)"
    from pre1 have "take (a + Suc j) (gen_toks s ! r) = take (a + Suc j) (gen_toks s1 ! r)"
      using r l gen_iter_lengths[OF s1 assms(2,3)]
      by (metis nth_map)
    then have "take (a + Suc j) (gen_toks s ! r) ! (a + j) = take (a + Suc j) (gen_toks s1 ! r) ! (a + j)" by simp
    then have eq1: "gen_toks s ! r ! (a + j) = gen_toks s1 ! r ! (a + j)" by simp
    have eq2: "gen_toks s1 ! r ! (a + j) = (if msk ! r ! (a + j) then gen_toks s0 ! r ! (a + j) else cand ! r)"
      using u r l0 n by simp
    have eq3: "gen_toks s0 ! r ! (a + j) = gen_toks st ! r ! (a + j)"
      using gen_iter_outside[OF s0 assms(2,3) r] by simp
    have eq4: "cand ! r = candidate model (gen_toks s) (a + j) r"
      using candidates_candidate[OF c'] r l by simp
    from eq1 eq2 eq3 eq4 show "gen_toks s ! r ! (a + j) =
              (if msk ! r ! (a + j) then gen_toks st ! r ! (a + j) else candidate model (gen_toks s) (a + j) r)"
      by simp
  qed
  with c' show ?thesis by blast
qed

text \<open>The flags after \<open>k\<close> iterations.\<close>
lemma gen_iter_flags:
  assumes "gen_iter model eos msk a k st = Inr s"
    and "length msk = length (gen_toks st)" and "length (eos_reached st) = length (gen_toks st)"
    and "r < length (gen_toks st)"
  shows "eos_reached s ! r =
           (eos_reached st ! r \<or> (\<exists>j<k. \<not> msk ! r ! (a + j) \<and> candidate model (gen_toks s) (a + j) r = eos))"
  using assms(1)
proof (induction k arbitrary: s)
  case 0
  then show ?case by simp
next
  case (Suc k)
  from Suc.prems(1) obtain s0 where s0: "gen_iter model eos msk a k st = Inr s0"
    and st: "gen_step model eos msk (a + k) s0 = Inr s" by (rule gen_iter_Suc_Inr)
  note l = gen_iter_lengths[OF s0 assms(2,3)]
  from l assms(2) have m: "length msk = length (gen_toks s0)" by simp
  from l have e: "length (eos_reached s0) = length (gen_toks s0)" by simp
  from gen_step_Inr[OF st m e] obtain cand where
    c: "candidates model (gen_toks s0) (a + k) = Inr cand" and
    f: "\<forall>r<length (gen_toks s0). eos_reached s ! r = (eos_reached s0 ! r \<or> (\<not> msk ! r ! (a + k) \<and> cand ! r = eos))"
    by blast
  have pre: "\<And>j. j \<le> k \<Longrightarrow> candidate model (gen_toks s) (a + j) r = candidate model (gen_toks s0) (a + j) r"
  proof -
    fix j assume "j \<le> k"
    then have "a + j \<le> a + k" by simp
    from gen_step_prefix[OF st m e this] show "candidate model (gen_toks s) (a + j) r = candidate model (gen_toks s0) (a + j) r"
      by (rule candidate_prefix)
  qed
  have ck: "cand ! r = candidate model (gen_toks s) (a + k) r"
    using candidates_candidate[OF c] assms(4) l pre[of k] by simp
  have "eos_reached s ! r = (eos_reached s0 ! r \<or> (\<not> msk ! r ! (a + k) \<and> candidate model (gen_toks s) (a + k) r = eos))"
    using f assms(4) l ck by simp
  also have "eos_reached s0 ! r = (eos_reached st ! r \<or> (\<exists>j<k. \<not> msk ! r ! (a + j) \<and> candidate model (gen_toks s) (a + j) r = eos))"
    using Suc.IH[OF s0] pre by auto
  finally show ?case by (auto simp: less_Suc_eq)
qed

lemma gen_iter_front:
  "gen_iter model eos msk a (Suc k) st =
     (case gen_step model eos msk a st of Inl e \<Rightarrow> Inl e | Inr s1 \<Rightarrow> gen_iter model eos msk (Suc a) k s1)"
proof (induction k)
  case 0
  then show ?case by (simp split: sum.splits)
next
  case (Suc k)
  have "gen_iter model eos msk a (Suc (Suc k)) st =
        (case gen_iter model eos msk a (Suc k) st of Inl e \<Rightarrow> Inl e
         | Inr s \<Rightarrow> gen_step model eos msk (a + Suc k) s)" by simp
  also have "\<dots> = (case gen_step model eos msk a st of Inl e \<Rightarrow> Inl e
                    | Inr s1 \<Rightarrow> gen_iter model eos msk (Suc a) (Suc k) s1)"
    unfolding Suc.IH by (simp split: sum.splits)
  finally show ?case .
qed

lemma gen_loop_iter:
  assumes "gen_loop model eos msk [a..<b] st = Inr st'"
  shows "\<exists>k\<le>b - a. gen_iter model eos msk a k st = Inr st' \<and> (a < b \<longrightarrow> 0 < k) \<and>
           (k = b - a \<or> all_done st') \<and>
           (\<forall>j. 0 < j \<and> j < k \<longrightarrow> (\<exists>sj. gen_iter model eos msk a j st = Inr sj \<and> \<not> all_done sj))"
  using assms
proof (induction "b - a" arbitrary: a st)
  case 0
  then have "[a..<b] = []" by simp
  with 0 show ?case by (intro exI[of _ 0]) simp
next
  case (Suc n)
  then have ab: "a < b" by simp
  then have upt: "[a..<b] = a # [Suc a..<b]" by (simp add: upt_conv_Cons)
  from Suc.prems[unfolded upt] obtain s1 where s1: "gen_step model eos msk a st = Inr s1"
    by (auto split: sum.splits)
  have it1: "gen_iter model eos msk a (Suc 0) st = Inr s1" using s1 by simp
  show ?case
  proof (cases "all_done s1")
    case True
    with Suc.prems[unfolded upt] s1 have "st' = s1" by (simp add: all_done_def)
    with it1 True ab show ?thesis by (intro exI[of _ "Suc 0"]) auto
  next
    case False
    with Suc.prems[unfolded upt] s1 have rest: "gen_loop model eos msk [Suc a..<b] s1 = Inr st'"
      by (simp add: all_done_def)
    from Suc.hyps(2) have n: "n = b - Suc a" by simp
    from Suc.hyps(1)[OF n rest] obtain k where k: "k \<le> b - Suc a"
      "gen_iter model eos msk (Suc a) k s1 = Inr st'" "k = b - Suc a \<or> all_done st'"
      "\<forall>j. 0 < j \<and> j < k \<longrightarrow> (\<exists>sj. gen_iter model eos msk (Suc a) j s1 = Inr sj \<and> \<not> all_done sj)"
      by blast
    have a1: "gen_iter model eos msk a (Suc k) st = Inr st'"
      using k(2) s1 by (simp only: gen_iter_front sum.case)
    have a2: "\<forall>j. 0 < j \<and> j < Suc k \<longrightarrow> (\<exists>sj. gen_iter model eos msk a j st = Inr sj \<and> \<not> all_done sj)"
    proof (intro allI impI)
      fix j assume j: "0 < j \<and> j < Suc k"
      then obtain j' where j': "j = Suc j'" by (cases j) auto
      show "\<exists>sj. gen_iter model eos msk a j st = Inr sj \<and> \<not> all_done sj"
      proof (cases j')
        case 0
        with j' it1 False show ?thesis by auto
      next
        case (Suc j'')
        with j j' have "0 < j' \<and> j' < k" by simp
        with k(4) obtain sj where "gen_iter model eos msk (Suc a) j' s1 = Inr sj" "\<not> all_done sj" by blast
        then show ?thesis unfolding j' using s1 by (simp only: gen_iter_front sum.case) blast
      qed
    qed
    from k(1,3) ab a1 a2 show ?thesis
      by (intro exI[of _ "Suc k"]) auto
  qed
qed

lemma py_min_Inr: "py_min xs = Inr m \<Longrightarrow> xs \<noteq> [] \<and> m = Min (set xs)"
  using Min.set_eq_fold[of "hd xs" "tl xs"] by (cases xs) (auto simp: py_min_def)

lemma py_max_Inr: "py_max xs = Inr m \<Longrightarrow> xs \<noteq> [] \<and> m = Max (set xs)"
  using Max.set_eq_fold[of "hd xs" "tl xs"] by (cases xs) (auto simp: py_max_def)

lemma copy_prompt_Inr:
  assumes "copy_prompt pad n t = Inr row"
  shows "length row = n \<and> (\<forall>c<n. row ! c = (if c < length t then t ! c else pad)) \<and>
         (length t \<le> n \<or> (length t = 1 \<and> n = 0))"
  using assms by (auto simp: copy_prompt_def nth_append split: if_splits)

lemma run_loop_Inr:
  assumes "run_loop model tokenizer model_args prompt_toks max_gen = Inr run"
  shows "prompt_toks \<noteq> []"
    and "min_tok_len run = Min (length ` set prompt_toks)"
    and "max_tok_len run = Max (length ` set prompt_toks)"
    and "ttl_len run = min (max_seq_len model_args) (gen_len model_args max_gen + int (max_tok_len run))"
    and "0 \<le> ttl_len run"
    and "map_err (copy_prompt (pad_id tokenizer) (nat (ttl_len run))) prompt_toks = Inr (gen_toks0 run)"
    and "input_text_mask run = map (map (\<lambda>t. t \<noteq> pad_id tokenizer)) (gen_toks0 run)"
    and "gen_loop model (eos_id tokenizer) (input_text_mask run) [min_tok_len run..<nat (ttl_len run)]
           \<lparr>gen_toks = gen_toks0 run, eos_reached = replicate (length prompt_toks) False, cur_pos = None\<rparr>
         = Inr (final run)"
proof -
  from assms obtain mn mx where mn: "py_min (map length prompt_toks) = Inr mn"
    and mx: "py_max (map length prompt_toks) = Inr mx"
    by (auto simp: run_loop_def split: sum.splits)
  define ttl where "ttl = min (max_seq_len model_args) (gen_len model_args max_gen + int mx)"
  from assms mn mx have nn: "\<not> ttl < 0"
    by (auto simp: run_loop_def Let_def ttl_def split: if_splits)
  from assms mn mx nn obtain buf where buf: "map_err (copy_prompt (pad_id tokenizer) (nat ttl)) prompt_toks = Inr buf"
    by (auto simp: run_loop_def Let_def ttl_def split: sum.splits if_splits)
  define msk where "msk = map (map (\<lambda>t. t \<noteq> pad_id tokenizer)) buf"
  from assms mn mx nn buf obtain st where 
    st: "gen_loop model (eos_id tokenizer) msk [mn..<nat ttl]
           \<lparr>gen_toks = buf, eos_reached = replicate (length prompt_toks) False, cur_pos = None\<rparr> = Inr st"
    and run: "run = \<lparr>min_tok_len = mn, max_tok_len = mx, ttl_len = ttl, gen_toks0 = buf,
                     input_text_mask = msk, final = st\<rparr>"
    using nn by (auto simp: run_loop_def Let_def ttl_def msk_def split: sum.splits if_splits)
  from py_min_Inr[OF mn] show "prompt_toks \<noteq> []" by simp
  from py_min_Inr[OF mn] show "min_tok_len run = Min (length ` set prompt_toks)" by (simp add: run)
  from py_max_Inr[OF mx] show "max_tok_len run = Max (length ` set prompt_toks)" by (simp add: run)
  show "ttl_len run = min (max_seq_len model_args) (gen_len model_args max_gen + int (max_tok_len run))"
    by (simp add: run ttl_def)
  show "0 \<le> ttl_len run" using nn by (simp add: run)
  show "map_err (copy_prompt (pad_id tokenizer) (nat (ttl_len run))) prompt_toks = Inr (gen_toks0 run)"
    using buf by (simp add: run)
  show "input_text_mask run = map (map (\<lambda>t. t \<noteq> pad_id tokenizer)) (gen_toks0 run)"
    by (simp add: run msk_def)
  show "gen_loop model (eos_id tokenizer) (input_text_mask run) [min_tok_len run..<nat (ttl_len run)]
           \<lparr>gen_toks = gen_toks0 run, eos_reached = replicate (length prompt_toks) False, cur_pos = None\<rparr>
         = Inr (final run)"
    using st by (simp add: run)
qed

subsection \<open>A whole run\<close>

lemma run_loop_shape:
  assumes "run_loop model tokenizer model_args prompt_toks max_gen = Inr run"
  shows "length (gen_toks0 run) = length prompt_toks"
    and "length (input_text_mask run) = length prompt_toks"
    and "\<And>r. r < length prompt_toks \<Longrightarrow> length (gen_toks0 run ! r) = nat (ttl_len run)"
    and "\<And>r c. r < length prompt_toks \<Longrightarrow> c < nat (ttl_len run) \<Longrightarrow>
           gen_toks0 run ! r ! c = (if c < length (prompt_toks ! r) then prompt_toks ! r ! c else pad_id tokenizer)"
    and "\<And>r c. r < length prompt_toks \<Longrightarrow> c < nat (ttl_len run) \<Longrightarrow>
           input_text_mask run ! r ! c = (gen_toks0 run ! r ! c \<noteq> pad_id tokenizer)"
    and "\<And>r. r < length prompt_toks \<Longrightarrow>
           length (prompt_toks ! r) \<le> nat (ttl_len run) \<or> (length (prompt_toks ! r) = 1 \<and> ttl_len run = 0)"
proof -
  note b = map_err_Inr[OF run_loop_Inr(6)[OF assms]]
  note m = run_loop_Inr(7)[OF assms]
  note nn = run_loop_Inr(5)[OF assms]
  from b show l: "length (gen_toks0 run) = length prompt_toks" by simp
  from m l show "length (input_text_mask run) = length prompt_toks" by simp
  { fix r assume r: "r < length prompt_toks"
    from b r have c: "copy_prompt (pad_id tokenizer) (nat (ttl_len run)) (prompt_toks ! r) = Inr (gen_toks0 run ! r)" by simp
    note cp = copy_prompt_Inr[OF c]
    from cp show "length (gen_toks0 run ! r) = nat (ttl_len run)" by simp
    from cp nn show "length (prompt_toks ! r) \<le> nat (ttl_len run) \<or> (length (prompt_toks ! r) = 1 \<and> ttl_len run = 0)"
      by auto
    fix c assume cc: "c < nat (ttl_len run)"
    from cp cc show "gen_toks0 run ! r ! c = (if c < length (prompt_toks ! r) then prompt_toks ! r ! c else pad_id tokenizer)"
      by simp
    from cp cc r l show "input_text_mask run ! r ! c = (gen_toks0 run ! r ! c \<noteq> pad_id tokenizer)"
      by (simp add: m)
  }
qed

lemma run_loop_trace:
  assumes "run_loop model tokenizer model_args prompt_toks max_gen = Inr run"
  shows "\<exists>k\<le>nat (ttl_len run) - min_tok_len run.
           gen_iter model (eos_id tokenizer) (input_text_mask run) (min_tok_len run) k
             \<lparr>gen_toks = gen_toks0 run, eos_reached = replicate (length prompt_toks) False, cur_pos = None\<rparr>
             = Inr (final run) \<and>
           (min_tok_len run < nat (ttl_len run) \<longrightarrow> 0 < k) \<and>
           (k = nat (ttl_len run) - min_tok_len run \<or> all_done (final run)) \<and>
           (\<forall>j. 0 < j \<and> j < k \<longrightarrow>
              (\<exists>sj. gen_iter model (eos_id tokenizer) (input_text_mask run) (min_tok_len run) j
                 \<lparr>gen_toks = gen_toks0 run, eos_reached = replicate (length prompt_toks) False, cur_pos = None\<rparr>
                 = Inr sj \<and> \<not> all_done sj))"
  by (rule gen_loop_iter[OF run_loop_Inr(8)[OF assms]])

text \<open>Everything the loop wrote, read off the final buffer\<close>
lemma run_loop_cells:
  assumes "run_loop model tokenizer model_args prompt_toks max_gen = Inr run"
  shows "\<exists>k\<le>nat (ttl_len run) - min_tok_len run.
           cur_pos (final run) = (if k = 0 then None else Some (min_tok_len run + k - 1)) \<and>
           (min_tok_len run < nat (ttl_len run) \<longrightarrow> 0 < k) \<and>
           (k = nat (ttl_len run) - min_tok_len run \<or> all_done (final run)) \<and>
           length (gen_toks (final run)) = length prompt_toks \<and>
           length (eos_reached (final run)) = length prompt_toks \<and>
           (\<forall>r<length prompt_toks. length (gen_toks (final run) ! r) = nat (ttl_len run)) \<and>
           (\<forall>r<length prompt_toks. \<forall>c. c < min_tok_len run \<or> min_tok_len run + k \<le> c \<longrightarrow>
              gen_toks (final run) ! r ! c = gen_toks0 run ! r ! c) \<and>
           (\<forall>c. min_tok_len run \<le> c \<and> c < min_tok_len run + k \<longrightarrow>
              (\<exists>cand. candidates model (gen_toks (final run)) c = Inr cand) \<and>
              (\<forall>r<length prompt_toks.
                 gen_toks (final run) ! r ! c =
                   (if input_text_mask run ! r ! c then gen_toks0 run ! r ! c
                    else candidate model (gen_toks (final run)) c r))) \<and>
           (\<forall>r<length prompt_toks. eos_reached (final run) ! r =
              (\<exists>c. min_tok_len run \<le> c \<and> c < min_tok_len run + k \<and> \<not> input_text_mask run ! r ! c \<and>
                   candidate model (gen_toks (final run)) c r = eos_id tokenizer))"
proof -
  let ?init = "\<lparr>gen_toks = gen_toks0 run, eos_reached = replicate (length prompt_toks) False, cur_pos = None\<rparr>"
  let ?a = "min_tok_len run"
  let ?M = "input_text_mask run"
  from run_loop_trace[OF assms] obtain k where k: "k \<le> nat (ttl_len run) - ?a"
    and it: "gen_iter model (eos_id tokenizer) ?M ?a k ?init = Inr (final run)"
    and pos: "?a < nat (ttl_len run) \<longrightarrow> 0 < k"
    and ex: "k = nat (ttl_len run) - ?a \<or> all_done (final run)" by blast
  note sh = run_loop_shape[OF assms]
  have m: "length ?M = length (gen_toks ?init)" using sh(1,2) by simp
  have e: "length (eos_reached ?init) = length (gen_toks ?init)" using sh(1) by simp
  have b: "length (gen_toks ?init) = length prompt_toks" using sh(1) by simp
  note l = gen_iter_lengths[OF it m e]
  have c1: "cur_pos (final run) = (if k = 0 then None else Some (?a + k - 1))"
    using gen_iter_cur_pos[OF it m e] by simp
  have c2: "\<forall>r<length prompt_toks. \<forall>c. c < ?a \<or> ?a + k \<le> c \<longrightarrow>
              gen_toks (final run) ! r ! c = gen_toks0 run ! r ! c"
    using gen_iter_outside[OF it m e] b by simp
  have c3: "\<forall>c. ?a \<le> c \<and> c < ?a + k \<longrightarrow>
              (\<exists>cand. candidates model (gen_toks (final run)) c = Inr cand) \<and>
              (\<forall>r<length prompt_toks.
                 gen_toks (final run) ! r ! c =
                   (if ?M ! r ! c then gen_toks0 run ! r ! c
                    else candidate model (gen_toks (final run)) c r))"
  proof (intro allI impI)
    fix c assume c: "?a \<le> c \<and> c < ?a + k"
    define j where "j = c - ?a"
    from c have j: "j < k" and cj: "c = ?a + j" by (auto simp: j_def)
    from c k have "c < nat (ttl_len run)" by linarith
    with gen_iter_written[OF it m e j] sh(3) b
    show "(\<exists>cand. candidates model (gen_toks (final run)) c = Inr cand) \<and>
              (\<forall>r<length prompt_toks.
                 gen_toks (final run) ! r ! c =
                   (if ?M ! r ! c then gen_toks0 run ! r ! c
                    else candidate model (gen_toks (final run)) c r))"
      unfolding cj by simp
  qed
  have c4: "\<forall>r<length prompt_toks. eos_reached (final run) ! r =
              (\<exists>c. ?a \<le> c \<and> c < ?a + k \<and> \<not> ?M ! r ! c \<and>
                   candidate model (gen_toks (final run)) c r = eos_id tokenizer)"
  proof (intro allI impI)
    fix r assume r: "r < length prompt_toks"
    then have r': "r < length (gen_toks ?init)" using b by simp
    have "eos_reached (final run) ! r = (\<exists>j<k. \<not> ?M ! r ! (?a + j) \<and>
             candidate model (gen_toks (final run)) (?a + j) r = eos_id tokenizer)"
      using gen_iter_flags[OF it m e r'] r by simp
    also have "\<dots> = (\<exists>c. ?a \<le> c \<and> c < ?a + k \<and> \<not> ?M ! r ! c \<and>
                   candidate model (gen_toks (final run)) c r = eos_id tokenizer)"
    proof
      assume "\<exists>j<k. \<not> ?M ! r ! (?a + j) \<and> candidate model (gen_toks (final run)) (?a + j) r = eos_id tokenizer"
      then obtain j where "j < k" "\<not> ?M ! r ! (?a + j)" "candidate model (gen_toks (final run)) (?a + j) r = eos_id tokenizer"
        by blast
      then show "\<exists>c. ?a \<le> c \<and> c < ?a + k \<and> \<not> ?M ! r ! c \<and>
                   candidate model (gen_toks (final run)) c r = eos_id tokenizer"
        by (intro exI[of _ "?a + j"]) simp
    next
      assume "\<exists>c. ?a \<le> c \<and> c < ?a + k \<and> \<not> ?M ! r ! c \<and>
                   candidate model (gen_toks (final run)) c r = eos_id tokenizer"
      then obtain c where c: "?a \<le> c" "c < ?a + k" "\<not> ?M ! r ! c"
        "candidate model (gen_toks (final run)) c r = eos_id tokenizer" by blast
      then have "c - ?a < k" "?a + (c - ?a) = c" by auto
      with c show "\<exists>j<k. \<not> ?M ! r ! (?a + j) \<and> candidate model (gen_toks (final run)) (?a + j) r = eos_id tokenizer"
        by (intro exI[of _ "c - ?a"]) simp
    qed
    finally show "eos_reached (final run) ! r =
              (\<exists>c. ?a \<le> c \<and> c < ?a + k \<and> \<not> ?M ! r ! c \<and>
                   candidate model (gen_toks (final run)) c r = eos_id tokenizer)" .
  qed
  have c5: "\<forall>r<length prompt_toks. length (gen_toks (final run) ! r) = nat (ttl_len run)"
    using l sh(3) b by simp
  show ?thesis
    apply (rule exI[of _ k])
    using k c1 pos ex l b c5 c2 c3 c4 by simp
qed

lemma candidate_last_logits: "candidate model toks pos r = int (argmax_idx (last_logits model toks pos r))"
  by (simp add: candidate_def last_logits_def)

text \<open>
  Claim C3, as amended. When the loop of \<^verbatim>\<open>generate\<close> has run: the total length
  is \<open>min(max_seq_len, max_gen_len + max_prompt_len)\<close>; the buffer had one row of that
  length per prompt, holding the prompt and then the pad id; the loop started at the
  minimum prompt length and ran \<open>k\<close> iterations of its body at consecutive positions
  (the final state is the initial one after \<open>k\<close> iterations), at least one when the
  range is not empty, and it stopped at \<open>ttl_len - 1\<close> or earlier, after the first
  iteration that left every row flagged finished; and at each position \<open>c\<close> it ran the
  model on the prefix \<^verbatim>\<open>[:, :c]\<close> of the buffer (the columns below \<open>c\<close> are final
  from then on) and took, per row, the first index of a maximal logit at the last position
  as the candidate, which is what the row holds at \<open>c\<close> when it is not in-prompt there.
\<close>

theorem generate_buffer_and_loop:
  assumes "run_loop model tokenizer model_args prompt_toks max_gen = Inr run"
  shows "ttl_len run = min (max_seq_len model_args)
                         (gen_len model_args max_gen + int (Max (length ` set prompt_toks))) \<and>
         min_tok_len run = Min (length ` set prompt_toks) \<and>
         length (gen_toks0 run) = length prompt_toks \<and>
         (\<forall>r<length prompt_toks. length (gen_toks0 run ! r) = nat (ttl_len run) \<and>
            (\<forall>c<nat (ttl_len run). gen_toks0 run ! r ! c =
               (if c < length (prompt_toks ! r) then prompt_toks ! r ! c else pad_id tokenizer))) \<and>
         (\<exists>k\<le>nat (ttl_len run) - min_tok_len run.
            gen_iter model (eos_id tokenizer) (input_text_mask run) (min_tok_len run) k
               \<lparr>gen_toks = gen_toks0 run, eos_reached = replicate (length prompt_toks) False,
                cur_pos = None\<rparr> = Inr (final run) \<and>
            (min_tok_len run < nat (ttl_len run) \<longrightarrow> 0 < k) \<and>
            (k = nat (ttl_len run) - min_tok_len run \<or> all_done (final run)) \<and>
            (\<forall>j. 0 < j \<and> j < k \<longrightarrow>
               (\<exists>s. gen_iter model (eos_id tokenizer) (input_text_mask run) (min_tok_len run) j
                  \<lparr>gen_toks = gen_toks0 run, eos_reached = replicate (length prompt_toks) False,
                cur_pos = None\<rparr> = Inr s \<and> \<not> all_done s)) \<and>
            cur_pos (final run) = (if k = 0 then None else Some (min_tok_len run + k - 1)) \<and>
            (\<forall>c. min_tok_len run \<le> c \<and> c < min_tok_len run + k \<longrightarrow>
               length (model (map (take c) (gen_toks (final run)))) = length prompt_toks \<and>
               (\<forall>r<length prompt_toks.
                  model (map (take c) (gen_toks (final run))) ! r \<noteq> [] \<and>
                  argmax_idx (last_logits model (gen_toks (final run)) c r)
                    < length (last_logits model (gen_toks (final run)) c r) \<and>
                  (\<forall>v\<in>set (last_logits model (gen_toks (final run)) c r).
                     v \<le> last_logits model (gen_toks (final run)) c r
                           ! argmax_idx (last_logits model (gen_toks (final run)) c r)) \<and>
                  (\<forall>j<argmax_idx (last_logits model (gen_toks (final run)) c r).
                     last_logits model (gen_toks (final run)) c r ! j
                       < last_logits model (gen_toks (final run)) c r
                           ! argmax_idx (last_logits model (gen_toks (final run)) c r)) \<and>
                  gen_toks (final run) ! r ! c =
                    (if input_text_mask run ! r ! c then gen_toks0 run ! r ! c
                     else int (argmax_idx (last_logits model (gen_toks (final run)) c r))))))"
proof -
  note I = run_loop_Inr[OF assms]
  note sh = run_loop_shape[OF assms]
  let ?init = "\<lparr>gen_toks = gen_toks0 run, eos_reached = replicate (length prompt_toks) False, cur_pos = None\<rparr>"
  let ?a = "min_tok_len run"
  let ?M = "input_text_mask run"
  let ?e = "eos_id tokenizer"
  let ?F = "gen_toks (final run)"
  from run_loop_trace[OF assms] obtain k where K:
    "k \<le> nat (ttl_len run) - ?a \<and>
     gen_iter model ?e ?M ?a k ?init = Inr (final run) \<and>
     (?a < nat (ttl_len run) \<longrightarrow> 0 < k) \<and>
     (k = nat (ttl_len run) - ?a \<or> all_done (final run)) \<and>
     (\<forall>j. 0 < j \<and> j < k \<longrightarrow> (\<exists>sj. gen_iter model ?e ?M ?a j ?init = Inr sj \<and> \<not> all_done sj))" ..
  note k = K[THEN conjunct1]
  note it = K[THEN conjunct2, THEN conjunct1]
  note pos = K[THEN conjunct2, THEN conjunct2, THEN conjunct1]
  note ex = K[THEN conjunct2, THEN conjunct2, THEN conjunct2, THEN conjunct1]
  note early = K[THEN conjunct2, THEN conjunct2, THEN conjunct2, THEN conjunct2]
  have m: "length ?M = length (gen_toks ?init)" using sh(1,2) by simp
  have e: "length (eos_reached ?init) = length (gen_toks ?init)" using sh(1) by simp
  have b: "length (gen_toks ?init) = length prompt_toks" using sh(1) by simp
  note l = gen_iter_lengths[OF it m e]
  have lf: "length ?F = length prompt_toks" using l b by simp
  have cp: "cur_pos (final run) = (if k = 0 then None else Some (?a + k - 1))"
    using gen_iter_cur_pos[OF it m e] by simp
  have wr: "\<forall>c. ?a \<le> c \<and> c < ?a + k \<longrightarrow>
              (\<exists>cand. candidates model (gen_toks (final run)) c = Inr cand) \<and>
              (\<forall>r<length prompt_toks.
                 gen_toks (final run) ! r ! c =
                   (if ?M ! r ! c then gen_toks0 run ! r ! c
                    else candidate model (gen_toks (final run)) c r))"
  proof (intro allI impI)
    fix c assume c: "?a \<le> c \<and> c < ?a + k"
    define j where "j = c - ?a"
    from c have j: "j < k" and cj: "c = ?a + j" by (auto simp: j_def)
    from c k have "c < nat (ttl_len run)" by linarith
    with gen_iter_written[OF it m e j] sh(3) b
    show "(\<exists>cand. candidates model (gen_toks (final run)) c = Inr cand) \<and>
              (\<forall>r<length prompt_toks.
                 gen_toks (final run) ! r ! c =
                   (if ?M ! r ! c then gen_toks0 run ! r ! c
                    else candidate model (gen_toks (final run)) c r))"
      unfolding cj by simp
  qed
  have loop: "\<forall>c. ?a \<le> c \<and> c < ?a + k \<longrightarrow>
               length (model (map (take c) ?F)) = length prompt_toks \<and>
               (\<forall>r<length prompt_toks.
                  model (map (take c) ?F) ! r \<noteq> [] \<and>
                  argmax_idx (last_logits model ?F c r) < length (last_logits model ?F c r) \<and>
                  (\<forall>v\<in>set (last_logits model ?F c r).
                     v \<le> last_logits model ?F c r ! argmax_idx (last_logits model ?F c r)) \<and>
                  (\<forall>j<argmax_idx (last_logits model ?F c r).
                     last_logits model ?F c r ! j
                       < last_logits model ?F c r ! argmax_idx (last_logits model ?F c r)) \<and>
                  ?F ! r ! c =
                    (if input_text_mask run ! r ! c then gen_toks0 run ! r ! c
                     else int (argmax_idx (last_logits model ?F c r))))"
  proof (intro allI impI)
    fix c assume c: "?a \<le> c \<and> c < ?a + k"
    with wr obtain cand where cand: "candidates model ?F c = Inr cand"
      and cell: "\<forall>r<length prompt_toks. ?F ! r ! c =
                   (if input_text_mask run ! r ! c then gen_toks0 run ! r ! c else candidate model ?F c r)"
      by blast
    have len: "length (model (map (take c) ?F)) = length prompt_toks"
      using candidates_Inr(2)[OF cand] lf by simp
    have rows: "\<forall>r<length prompt_toks.
                  model (map (take c) ?F) ! r \<noteq> [] \<and>
                  argmax_idx (last_logits model ?F c r) < length (last_logits model ?F c r) \<and>
                  (\<forall>v\<in>set (last_logits model ?F c r).
                     v \<le> last_logits model ?F c r ! argmax_idx (last_logits model ?F c r)) \<and>
                  (\<forall>j<argmax_idx (last_logits model ?F c r).
                     last_logits model ?F c r ! j
                       < last_logits model ?F c r ! argmax_idx (last_logits model ?F c r)) \<and>
                  ?F ! r ! c =
                    (if input_text_mask run ! r ! c then gen_toks0 run ! r ! c
                     else int (argmax_idx (last_logits model ?F c r)))"
    proof (intro allI impI)
      fix r assume r: "r < length prompt_toks"
      then have r': "r < length ?F" using lf by simp
      from candidates_Inr(3)[OF cand r'] have ne: "model (map (take c) ?F) ! r \<noteq> []"
        and ne2: "last_logits model ?F c r \<noteq> []" by (simp_all add: last_logits_def)
      note am = argmax_idx_spec[OF ne2]
      from am have mx: "\<forall>v\<in>set (last_logits model ?F c r).
                     v \<le> last_logits model ?F c r ! argmax_idx (last_logits model ?F c r)"
        by (auto simp: in_set_conv_nth)
      from cell r have "?F ! r ! c =
                    (if input_text_mask run ! r ! c then gen_toks0 run ! r ! c
                     else int (argmax_idx (last_logits model ?F c r)))"
        by (simp add: candidate_last_logits)
      with ne am mx show "model (map (take c) ?F) ! r \<noteq> [] \<and>
                  argmax_idx (last_logits model ?F c r) < length (last_logits model ?F c r) \<and>
                  (\<forall>v\<in>set (last_logits model ?F c r).
                     v \<le> last_logits model ?F c r ! argmax_idx (last_logits model ?F c r)) \<and>
                  (\<forall>j<argmax_idx (last_logits model ?F c r).
                     last_logits model ?F c r ! j
                       < last_logits model ?F c r ! argmax_idx (last_logits model ?F c r)) \<and>
                  ?F ! r ! c =
                    (if input_text_mask run ! r ! c then gen_toks0 run ! r ! c
                     else int (argmax_idx (last_logits model ?F c r)))"
        by blast
    qed
    from len rows show "length (model (map (take c) ?F)) = length prompt_toks \<and>
               (\<forall>r<length prompt_toks.
                  model (map (take c) ?F) ! r \<noteq> [] \<and>
                  argmax_idx (last_logits model ?F c r) < length (last_logits model ?F c r) \<and>
                  (\<forall>v\<in>set (last_logits model ?F c r).
                     v \<le> last_logits model ?F c r ! argmax_idx (last_logits model ?F c r)) \<and>
                  (\<forall>j<argmax_idx (last_logits model ?F c r).
                     last_logits model ?F c r ! j
                       < last_logits model ?F c r ! argmax_idx (last_logits model ?F c r)) \<and>
                  ?F ! r ! c =
                    (if input_text_mask run ! r ! c then gen_toks0 run ! r ! c
                     else int (argmax_idx (last_logits model ?F c r))))"
      by blast
  qed
  have t: "ttl_len run = min (max_seq_len model_args)
                         (gen_len model_args max_gen + int (Max (length ` set prompt_toks)))"
    using I(3,4) by simp
  have buf: "\<forall>r<length prompt_toks. length (gen_toks0 run ! r) = nat (ttl_len run) \<and>
            (\<forall>c<nat (ttl_len run). gen_toks0 run ! r ! c =
               (if c < length (prompt_toks ! r) then prompt_toks ! r ! c else pad_id tokenizer))"
    using sh(3,4) by simp
  have "\<exists>k\<le>nat (ttl_len run) - ?a.
            gen_iter model ?e ?M ?a k ?init = Inr (final run) \<and>
            (?a < nat (ttl_len run) \<longrightarrow> 0 < k) \<and>
            (k = nat (ttl_len run) - ?a \<or> all_done (final run)) \<and>
            (\<forall>j. 0 < j \<and> j < k \<longrightarrow> (\<exists>s. gen_iter model ?e ?M ?a j ?init = Inr s \<and> \<not> all_done s)) \<and>
            cur_pos (final run) = (if k = 0 then None else Some (?a + k - 1)) \<and>
            (\<forall>c. min_tok_len run \<le> c \<and> c < min_tok_len run + k \<longrightarrow>
               length (model (map (take c) (gen_toks (final run)))) = length prompt_toks \<and>
               (\<forall>r<length prompt_toks.
                  model (map (take c) (gen_toks (final run))) ! r \<noteq> [] \<and>
                  argmax_idx (last_logits model (gen_toks (final run)) c r)
                    < length (last_logits model (gen_toks (final run)) c r) \<and>
                  (\<forall>v\<in>set (last_logits model (gen_toks (final run)) c r).
                     v \<le> last_logits model (gen_toks (final run)) c r
                           ! argmax_idx (last_logits model (gen_toks (final run)) c r)) \<and>
                  (\<forall>j<argmax_idx (last_logits model (gen_toks (final run)) c r).
                     last_logits model (gen_toks (final run)) c r ! j
                       < last_logits model (gen_toks (final run)) c r
                           ! argmax_idx (last_logits model (gen_toks (final run)) c r)) \<and>
                  gen_toks (final run) ! r ! c =
                    (if input_text_mask run ! r ! c then gen_toks0 run ! r ! c
                     else int (argmax_idx (last_logits model (gen_toks (final run)) c r)))))"
    using k it pos ex early cp loop by (intro exI[of _ k] conjI)
  with t I(2) sh(1) buf show ?thesis by (intro conjI)
qed

theorem generate_buffer_and_loop_witness:
  "run_loop (const_model [0, 0, 0, 1 :: int]) tok0 default_args [[1, 3, 3], [1, 3]] (Some 2) =
     Inr \<lparr>min_tok_len = 2, max_tok_len = 3, ttl_len = 5,
          gen_toks0 = [[1, 3, 3, 0, 0], [1, 3, 0, 0, 0]],
          input_text_mask = [[True, True, True, False, False], [True, True, False, False, False]],
          final = \<lparr>gen_toks = [[1, 3, 3, 3, 3], [1, 3, 3, 3, 3]], eos_reached = [False, False],
                    cur_pos = Some 4\<rparr>\<rparr> \<and>
   (5 :: int) = min (max_seq_len default_args)
                  (gen_len default_args (Some 2) + int (Max (length ` set [[1, 3, 3], [1, 3 :: int]]))) \<and>
   (2 :: nat) = Min (length ` set [[1, 3, 3], [1, 3 :: int]])"
proof -
  let ?R = "\<lparr>min_tok_len = 2, max_tok_len = 3, ttl_len = 5,
          gen_toks0 = [[1, 3, 3, 0, 0], [1, 3, 0, 0, 0]],
          input_text_mask = [[True, True, True, False, False], [True, True, False, False, False]],
          final = \<lparr>gen_toks = [[1, 3, 3, 3, 3], [1, 3, 3, 3, 3 :: int]], eos_reached = [False, False],
                    cur_pos = Some 4\<rparr>\<rparr>"
  have h: "run_loop (const_model [0, 0, 0, 1 :: int]) tok0 default_args [[1, 3, 3], [1, 3]] (Some 2) = Inr ?R"
    by code_simp
  note T = generate_buffer_and_loop[OF h]
  from T[THEN conjunct1]
  have a: "(5 :: int) = min (max_seq_len default_args)
                  (gen_len default_args (Some 2) + int (Max (length ` set [[1, 3, 3], [1, 3 :: int]])))"
    by (simp only: gen_run.select_convs)
  from T[THEN conjunct2, THEN conjunct1]
  have b: "(2 :: nat) = Min (length ` set [[1, 3, 3], [1, 3 :: int]])"
    by (simp only: gen_run.select_convs)
  from h a b show ?thesis by (intro conjI)
qed

text \<open>
  Claim C3 as stated fails where the loop exits early: with one prompt \<open>[5]\<close>, a cap of
  10 and a model that always chooses the end id 2, the total length is 11, so the range
  of \<^verbatim>\<open>cur_pos\<close> is 1 to 10, but the only iteration that runs is the one at position 1,
  after which the single row is finished.
\<close>

theorem generate_loop_range_counterexample:
  "run_loop (const_model [0, 0, 1 :: int]) tok0 default_args [[5]] (Some 10) =
     Inr \<lparr>min_tok_len = 1, max_tok_len = 1, ttl_len = 11,
          gen_toks0 = [[5, 0, 0, 0, 0, 0, 0, 0, 0, 0, 0]],
          input_text_mask = [[True, False, False, False, False, False, False, False, False, False,
                              False]],
          final = \<lparr>gen_toks = [[5, 2, 0, 0, 0, 0, 0, 0, 0, 0, 0]], eos_reached = [True],
                    cur_pos = Some 1\<rparr>\<rparr> \<and>
   Some (1 :: nat) \<noteq> Some (nat 11 - 1)"
proof -
  have h: "run_loop (const_model [0, 0, 1 :: int]) tok0 default_args [[5]] (Some 10) =
     Inr \<lparr>min_tok_len = 1, max_tok_len = 1, ttl_len = 11,
          gen_toks0 = [[5, 0, 0, 0, 0, 0, 0, 0, 0, 0, 0]],
          input_text_mask = [[True, False, False, False, False, False, False, False, False, False,
                              False]],
          final = \<lparr>gen_toks = [[5, 2, 0, 0, 0, 0, 0, 0, 0, 0, 0]], eos_reached = [True],
                    cur_pos = Some 1\<rparr>\<rparr>"
    by code_simp
  have a: "Some (1 :: nat) \<noteq> Some (nat 11 - 1)" by simp
  from h a show ?thesis by (rule conjI)
qed

text \<open>
  The loop positions of a run, \<open>min_tok_len, \<dots>, cur_pos\<close>, are the positions of the
  \<open>k\<close> iterations that ran; what each wrote and flagged, in rule form.
\<close>

lemma run_loop_visited:
  assumes "run_loop model tokenizer model_args prompt_toks max_gen = Inr run"
  obtains k where "k \<le> nat (ttl_len run) - min_tok_len run"
    and "\<And>c cp. cur_pos (final run) = Some cp \<Longrightarrow> min_tok_len run \<le> c \<Longrightarrow> c \<le> cp \<Longrightarrow>
           c < min_tok_len run + k"
    and "\<And>c. min_tok_len run \<le> c \<Longrightarrow> c < min_tok_len run + k \<Longrightarrow>
           \<exists>cp. cur_pos (final run) = Some cp \<and> c \<le> cp"
    and "k = nat (ttl_len run) - min_tok_len run \<or> all_done (final run)"
    and "length (eos_reached (final run)) = length prompt_toks"
    and "\<And>c r. min_tok_len run \<le> c \<Longrightarrow> c < min_tok_len run + k \<Longrightarrow> r < length prompt_toks \<Longrightarrow>
           gen_toks (final run) ! r ! c =
             (if input_text_mask run ! r ! c then gen_toks0 run ! r ! c
              else candidate model (gen_toks (final run)) c r)"
    and "\<And>r. r < length prompt_toks \<Longrightarrow> eos_reached (final run) ! r =
           (\<exists>c. min_tok_len run \<le> c \<and> c < min_tok_len run + k \<and> \<not> input_text_mask run ! r ! c \<and>
                candidate model (gen_toks (final run)) c r = eos_id tokenizer)"
proof -
  from run_loop_cells[OF assms] obtain k where K:
    "k \<le> nat (ttl_len run) - min_tok_len run \<and>
           cur_pos (final run) = (if k = 0 then None else Some (min_tok_len run + k - 1)) \<and>
           (min_tok_len run < nat (ttl_len run) \<longrightarrow> 0 < k) \<and>
           (k = nat (ttl_len run) - min_tok_len run \<or> all_done (final run)) \<and>
           length (gen_toks (final run)) = length prompt_toks \<and>
           length (eos_reached (final run)) = length prompt_toks \<and>
           (\<forall>r<length prompt_toks. length (gen_toks (final run) ! r) = nat (ttl_len run)) \<and>
           (\<forall>r<length prompt_toks. \<forall>c. c < min_tok_len run \<or> min_tok_len run + k \<le> c \<longrightarrow>
              gen_toks (final run) ! r ! c = gen_toks0 run ! r ! c) \<and>
           (\<forall>c. min_tok_len run \<le> c \<and> c < min_tok_len run + k \<longrightarrow>
              (\<exists>cand. candidates model (gen_toks (final run)) c = Inr cand) \<and>
              (\<forall>r<length prompt_toks.
                 gen_toks (final run) ! r ! c =
                   (if input_text_mask run ! r ! c then gen_toks0 run ! r ! c
                    else candidate model (gen_toks (final run)) c r))) \<and>
           (\<forall>r<length prompt_toks. eos_reached (final run) ! r =
              (\<exists>c. min_tok_len run \<le> c \<and> c < min_tok_len run + k \<and> \<not> input_text_mask run ! r ! c \<and>
                   candidate model (gen_toks (final run)) c r = eos_id tokenizer))" ..
  note k = K[THEN conjunct1]
  note cp = K[THEN conjunct2, THEN conjunct1]
  note ex = K[THEN conjunct2, THEN conjunct2, THEN conjunct2, THEN conjunct1]
  note K5 = K[THEN conjunct2, THEN conjunct2, THEN conjunct2, THEN conjunct2, THEN conjunct2]
  note le = K5[THEN conjunct1]
  note wr = K5[THEN conjunct2, THEN conjunct2, THEN conjunct2, THEN conjunct1]
  note fl = K5[THEN conjunct2, THEN conjunct2, THEN conjunct2, THEN conjunct2]
  show ?thesis
  proof (rule that[of k])
    show "k \<le> nat (ttl_len run) - min_tok_len run" by (rule k)
    show "k = nat (ttl_len run) - min_tok_len run \<or> all_done (final run)" by (rule ex)
    show "length (eos_reached (final run)) = length prompt_toks" by (rule le)
  next
    fix c cp' assume a: "cur_pos (final run) = Some cp'" "min_tok_len run \<le> c" "c \<le> cp'"
    show "c < min_tok_len run + k"
    proof (cases "k = 0")
      case True
      with cp a(1) show ?thesis by simp
    next
      case False
      with cp a(1) have "cp' = min_tok_len run + k - 1" by simp
      with a(3) False show ?thesis by linarith
    qed
  next
    fix c assume a: "min_tok_len run \<le> c" "c < min_tok_len run + k"
    then have k0: "k \<noteq> 0" by linarith
    with cp have "cur_pos (final run) = Some (min_tok_len run + k - 1)" by simp
    moreover from a have "c \<le> min_tok_len run + k - 1" by linarith
    ultimately show "\<exists>cp. cur_pos (final run) = Some cp \<and> c \<le> cp" by blast
  next
    fix c r assume a: "min_tok_len run \<le> c" "c < min_tok_len run + k" "r < length prompt_toks"
    from a(1,2) have "min_tok_len run \<le> c \<and> c < min_tok_len run + k" ..
    from wr[THEN spec, of c, THEN mp, OF this]
    have "\<forall>r<length prompt_toks.
                 gen_toks (final run) ! r ! c =
                   (if input_text_mask run ! r ! c then gen_toks0 run ! r ! c
                    else candidate model (gen_toks (final run)) c r)" by (rule conjunct2)
    from this[THEN spec, of r, THEN mp, OF a(3)]
    show "gen_toks (final run) ! r ! c =
             (if input_text_mask run ! r ! c then gen_toks0 run ! r ! c
              else candidate model (gen_toks (final run)) c r)" .
  next
    fix r assume a: "r < length prompt_toks"
    from fl[THEN spec, of r, THEN mp, OF a]
    show "eos_reached (final run) ! r =
           (\<exists>c. min_tok_len run \<le> c \<and> c < min_tok_len run + k \<and> \<not> input_text_mask run ! r ! c \<and>
                candidate model (gen_toks (final run)) c r = eos_id tokenizer)" .
  qed
qed

text \<open>
  Claim C2, as amended. The loop positions of a run are \<open>min_tok_len, \<dots>, cur_pos\<close>
  (the last value of the loop variable). At every loop position \<open>c\<close> and for every
  row \<open>r\<close>: a row that is in-prompt at \<open>c\<close> keeps its prompt token, provided that
  token is not the pad id; a row whose prompt is exhausted at \<open>c\<close> holds the model's
  candidate, whatever the other rows' prompts are.
\<close>

theorem in_prompt_preservation:
  assumes "run_loop model tokenizer model_args prompt_toks max_gen = Inr run"
    and "r < length prompt_toks"
    and "cur_pos (final run) = Some cp" and "min_tok_len run \<le> c" and "c \<le> cp"
  shows "(c < length (prompt_toks ! r) \<and> prompt_toks ! r ! c \<noteq> pad_id tokenizer \<longrightarrow>
            gen_toks (final run) ! r ! c = prompt_toks ! r ! c) \<and>
         (length (prompt_toks ! r) \<le> c \<longrightarrow>
            gen_toks (final run) ! r ! c = candidate model (gen_toks (final run)) c r)"
  using assms(1)
proof (rule run_loop_visited)
  fix k
  assume k: "k \<le> nat (ttl_len run) - min_tok_len run"
    and v: "\<And>c cp. cur_pos (final run) = Some cp \<Longrightarrow> min_tok_len run \<le> c \<Longrightarrow> c \<le> cp \<Longrightarrow>
           c < min_tok_len run + k"
    and w: "\<And>c r. min_tok_len run \<le> c \<Longrightarrow> c < min_tok_len run + k \<Longrightarrow> r < length prompt_toks \<Longrightarrow>
           gen_toks (final run) ! r ! c =
             (if input_text_mask run ! r ! c then gen_toks0 run ! r ! c
              else candidate model (gen_toks (final run)) c r)"
  note sh = run_loop_shape[OF assms(1)]
  from v[OF assms(3-5)] have c: "c < min_tok_len run + k" .
  with k assms(4) have ct: "c < nat (ttl_len run)" by linarith
  note cell = w[OF assms(4) c assms(2)]
  note g0 = sh(4)[OF assms(2) ct] and m0 = sh(5)[OF assms(2) ct]
  have a: "c < length (prompt_toks ! r) \<and> prompt_toks ! r ! c \<noteq> pad_id tokenizer \<longrightarrow>
            gen_toks (final run) ! r ! c = prompt_toks ! r ! c"
  proof
    assume h: "c < length (prompt_toks ! r) \<and> prompt_toks ! r ! c \<noteq> pad_id tokenizer"
    with g0 have e: "gen_toks0 run ! r ! c = prompt_toks ! r ! c" by simp
    with h m0 have "input_text_mask run ! r ! c" by simp
    with cell e show "gen_toks (final run) ! r ! c = prompt_toks ! r ! c" by simp
  qed
  have b: "length (prompt_toks ! r) \<le> c \<longrightarrow>
            gen_toks (final run) ! r ! c = candidate model (gen_toks (final run)) c r"
  proof
    assume h: "length (prompt_toks ! r) \<le> c"
    with g0 have e: "gen_toks0 run ! r ! c = pad_id tokenizer" by simp
    with m0 have "\<not> input_text_mask run ! r ! c" by simp
    with cell show "gen_toks (final run) ! r ! c = candidate model (gen_toks (final run)) c r" by simp
  qed
  from a b show ?thesis ..
qed

theorem in_prompt_preservation_witness:
  "run_loop (const_model [0, 0, 0, 1 :: int]) tok0 default_args [[1, 3, 3], [1, 3]] (Some 2) =
     Inr \<lparr>min_tok_len = 2, max_tok_len = 3, ttl_len = 5,
          gen_toks0 = [[1, 3, 3, 0, 0], [1, 3, 0, 0, 0]],
          input_text_mask = [[True, True, True, False, False], [True, True, False, False, False]],
          final = \<lparr>gen_toks = [[1, 3, 3, 3, 3], [1, 3, 3, 3, 3]], eos_reached = [False, False],
                    cur_pos = Some 4\<rparr>\<rparr> \<and>
   [[1, 3, 3, 3, 3], [1, 3, 3, 3, 3 :: int]] ! 1 ! 2 =
     candidate (const_model [0, 0, 0, 1 :: int]) [[1, 3, 3, 3, 3], [1, 3, 3, 3, 3]] 2 1 \<and>
   [[1, 3, 3, 3, 3], [1, 3, 3, 3, 3 :: int]] ! 0 ! 2 = [[1, 3, 3], [1, 3 :: int]] ! 0 ! 2"
proof -
  let ?R = "\<lparr>min_tok_len = 2, max_tok_len = 3, ttl_len = 5,
          gen_toks0 = [[1, 3, 3, 0, 0], [1, 3, 0, 0, 0]],
          input_text_mask = [[True, True, True, False, False], [True, True, False, False, False]],
          final = \<lparr>gen_toks = [[1, 3, 3, 3, 3], [1, 3, 3, 3, 3 :: int]], eos_reached = [False, False],
                    cur_pos = Some 4\<rparr>\<rparr>"
  have h: "run_loop (const_model [0, 0, 0, 1 :: int]) tok0 default_args [[1, 3, 3], [1, 3]] (Some 2) = Inr ?R"
    by code_simp
  have r1: "(1::nat) < length [[1, 3, 3], [1, 3 :: int]]" and r0: "(0::nat) < length [[1, 3, 3], [1, 3 :: int]]"
    by simp_all
  have cp: "cur_pos (final ?R) = Some 4" by simp
  have lo: "min_tok_len ?R \<le> 2" and hi: "(2::nat) \<le> 4" by simp_all
  have e1: "length ([[1, 3, 3], [1, 3 :: int]] ! 1) \<le> 2" by simp
  have e0: "2 < length ([[1, 3, 3], [1, 3 :: int]] ! 0) \<and> [[1, 3, 3], [1, 3 :: int]] ! 0 ! 2 \<noteq> pad_id tok0"
    by (simp add: tok0_def)
  from in_prompt_preservation[OF h r1 cp lo hi, THEN conjunct2, THEN mp, OF e1]
  have a: "[[1, 3, 3, 3, 3], [1, 3, 3, 3, 3 :: int]] ! 1 ! 2 =
     candidate (const_model [0, 0, 0, 1 :: int]) [[1, 3, 3, 3, 3], [1, 3, 3, 3, 3]] 2 1"
    by (simp only: gen_run.select_convs gen_state.select_convs)
  from in_prompt_preservation[OF h r0 cp lo hi, THEN conjunct1, THEN mp, OF e0]
  have b: "[[1, 3, 3, 3, 3], [1, 3, 3, 3, 3 :: int]] ! 0 ! 2 = [[1, 3, 3], [1, 3 :: int]] ! 0 ! 2"
    by (simp only: gen_run.select_convs gen_state.select_convs)
  from h a b show ?thesis by (intro conjI)
qed

text \<open>
  Claim C2 as stated fails where a prompt holds the pad id: with pad id 0, row 1 has the
  prompt \<open>[5, 0, 4]\<close> and is in-prompt at position 1 (1 < 3), yet the buffer ends with
  the model's token 3 there, not the prompt's 0.
\<close>

theorem in_prompt_counterexample:
  "run_loop (const_model [0, 0, 0, 1 :: int]) tok0 default_args [[5], [5, 0, 4]] (Some 1) =
     Inr \<lparr>min_tok_len = 1, max_tok_len = 3, ttl_len = 4,
          gen_toks0 = [[5, 0, 0, 0], [5, 0, 4, 0]],
          input_text_mask = [[True, False, False, False], [True, False, True, False]],
          final = \<lparr>gen_toks = [[5, 3, 3, 3], [5, 3, 4, 3]], eos_reached = [False, False],
                    cur_pos = Some 3\<rparr>\<rparr> \<and>
   (1 :: nat) < length ([[5], [5, 0, 4 :: int]] ! 1) \<and>
   [[5, 3, 3, 3], [5, 3, 4, 3 :: int]] ! 1 ! 1 \<noteq> [[5], [5, 0, 4 :: int]] ! 1 ! 1"
proof -
  have h: "run_loop (const_model [0, 0, 0, 1 :: int]) tok0 default_args [[5], [5, 0, 4]] (Some 1) =
     Inr \<lparr>min_tok_len = 1, max_tok_len = 3, ttl_len = 4,
          gen_toks0 = [[5, 0, 0, 0], [5, 0, 4, 0]],
          input_text_mask = [[True, False, False, False], [True, False, True, False]],
          final = \<lparr>gen_toks = [[5, 3, 3, 3], [5, 3, 4, 3]], eos_reached = [False, False],
                    cur_pos = Some 3\<rparr>\<rparr>"
    by code_simp
  have a: "(1 :: nat) < length ([[5], [5, 0, 4 :: int]] ! 1)" by simp
  have b: "[[5, 3, 3, 3], [5, 3, 4, 3 :: int]] ! 1 ! 1 \<noteq> [[5], [5, 0, 4 :: int]] ! 1 ! 1" by simp
  from h a b show ?thesis by (intro conjI)
qed

text \<open>
  Claim C10, as amended. The mask is computed once, from the pad-initialised buffer: a cell
  is in-prompt exactly when it lies inside the row's prompt and the prompt token there is
  not the pad id. For a row whose prompt holds the pad id at a position \<open>p\<close> at or
  beyond the minimum prompt length: if the loop reaches \<open>p\<close>, the cell holds the
  model's candidate, and a candidate equal to the end id sets the row's flag; and the loop
  does reach \<open>p\<close> when it is the first such position of the row and the buffer is not
  empty (\<open>ttl_len > 0\<close>).
\<close>

theorem pad_in_prompt_overwritten:
  assumes "run_loop model tokenizer model_args prompt_toks max_gen = Inr run"
    and "r < length prompt_toks"
    and "min_tok_len run \<le> p" and "p < length (prompt_toks ! r)"
    and "prompt_toks ! r ! p = pad_id tokenizer"
  shows "(\<forall>r'<length prompt_toks. \<forall>c<nat (ttl_len run).
            input_text_mask run ! r' ! c =
              (c < length (prompt_toks ! r') \<and> prompt_toks ! r' ! c \<noteq> pad_id tokenizer)) \<and>
         (\<forall>cp. cur_pos (final run) = Some cp \<and> p \<le> cp \<longrightarrow>
            gen_toks (final run) ! r ! p = candidate model (gen_toks (final run)) p r \<and>
            (candidate model (gen_toks (final run)) p r = eos_id tokenizer \<longrightarrow>
               eos_reached (final run) ! r)) \<and>
         ((\<forall>q. min_tok_len run \<le> q \<and> q < p \<longrightarrow> prompt_toks ! r ! q \<noteq> pad_id tokenizer) \<and>
          0 < ttl_len run \<longrightarrow>
            (\<exists>cp. cur_pos (final run) = Some cp \<and> p \<le> cp))"
  using assms(1)
proof (rule run_loop_visited)
  fix k
  assume k: "k \<le> nat (ttl_len run) - min_tok_len run"
    and v: "\<And>c cp. cur_pos (final run) = Some cp \<Longrightarrow> min_tok_len run \<le> c \<Longrightarrow> c \<le> cp \<Longrightarrow>
           c < min_tok_len run + k"
    and v': "\<And>c. min_tok_len run \<le> c \<Longrightarrow> c < min_tok_len run + k \<Longrightarrow>
           \<exists>cp. cur_pos (final run) = Some cp \<and> c \<le> cp"
    and ex: "k = nat (ttl_len run) - min_tok_len run \<or> all_done (final run)"
    and le: "length (eos_reached (final run)) = length prompt_toks"
    and w: "\<And>c r. min_tok_len run \<le> c \<Longrightarrow> c < min_tok_len run + k \<Longrightarrow> r < length prompt_toks \<Longrightarrow>
           gen_toks (final run) ! r ! c =
             (if input_text_mask run ! r ! c then gen_toks0 run ! r ! c
              else candidate model (gen_toks (final run)) c r)"
    and f: "\<And>r. r < length prompt_toks \<Longrightarrow> eos_reached (final run) ! r =
           (\<exists>c. min_tok_len run \<le> c \<and> c < min_tok_len run + k \<and> \<not> input_text_mask run ! r ! c \<and>
                candidate model (gen_toks (final run)) c r = eos_id tokenizer)"
  note sh = run_loop_shape[OF assms(1)]
  have msk: "input_text_mask run ! r' ! c =
              (c < length (prompt_toks ! r') \<and> prompt_toks ! r' ! c \<noteq> pad_id tokenizer)"
    if "r' < length prompt_toks" "c < nat (ttl_len run)" for r' c
    using sh(4)[OF that] sh(5)[OF that] by simp
  have A: "\<forall>r'<length prompt_toks. \<forall>c<nat (ttl_len run).
            input_text_mask run ! r' ! c =
              (c < length (prompt_toks ! r') \<and> prompt_toks ! r' ! c \<noteq> pad_id tokenizer)"
    using msk by blast
  have mp: "\<not> input_text_mask run ! r ! p" if "p < nat (ttl_len run)"
    using msk[OF assms(2) that] assms(5) by simp
  have B: "\<forall>cp. cur_pos (final run) = Some cp \<and> p \<le> cp \<longrightarrow>
            gen_toks (final run) ! r ! p = candidate model (gen_toks (final run)) p r \<and>
            (candidate model (gen_toks (final run)) p r = eos_id tokenizer \<longrightarrow>
               eos_reached (final run) ! r)"
  proof (intro allI impI)
    fix cp assume cp: "cur_pos (final run) = Some cp \<and> p \<le> cp"
    then have c1: "cur_pos (final run) = Some cp" and c2: "p \<le> cp" by simp_all
    from v[OF c1 assms(3) c2] have pk: "p < min_tok_len run + k" .
    with k assms(3) have "p < nat (ttl_len run)" by linarith
    note mp = mp[OF this]
    from w[OF assms(3) pk assms(2)] mp
    have g: "gen_toks (final run) ! r ! p = candidate model (gen_toks (final run)) p r" by simp
    have fl: "candidate model (gen_toks (final run)) p r = eos_id tokenizer \<longrightarrow>
               eos_reached (final run) ! r"
    proof
      assume e: "candidate model (gen_toks (final run)) p r = eos_id tokenizer"
      from assms(3) pk mp e
      have "\<exists>c. min_tok_len run \<le> c \<and> c < min_tok_len run + k \<and> \<not> input_text_mask run ! r ! c \<and>
                candidate model (gen_toks (final run)) c r = eos_id tokenizer"
        by (intro exI[of _ p]) simp
      with f[OF assms(2)] show "eos_reached (final run) ! r" by simp
    qed
    from g fl show "gen_toks (final run) ! r ! p = candidate model (gen_toks (final run)) p r \<and>
            (candidate model (gen_toks (final run)) p r = eos_id tokenizer \<longrightarrow>
               eos_reached (final run) ! r)" ..
  qed
  have C: "(\<forall>q. min_tok_len run \<le> q \<and> q < p \<longrightarrow> prompt_toks ! r ! q \<noteq> pad_id tokenizer) \<and>
          0 < ttl_len run \<longrightarrow>
            (\<exists>cp. cur_pos (final run) = Some cp \<and> p \<le> cp)"
  proof
    assume fa: "(\<forall>q. min_tok_len run \<le> q \<and> q < p \<longrightarrow> prompt_toks ! r ! q \<noteq> pad_id tokenizer) \<and>
          0 < ttl_len run"
    then have first: "\<forall>q. min_tok_len run \<le> q \<and> q < p \<longrightarrow> prompt_toks ! r ! q \<noteq> pad_id tokenizer"
      and tp: "0 < ttl_len run" by simp_all
    from sh(6)[OF assms(2)] tp have "length (prompt_toks ! r) \<le> nat (ttl_len run)" by simp
    with assms(4) have pt: "p < nat (ttl_len run)" by simp
    have pk: "p < min_tok_len run + k"
    proof (rule ccontr)
      assume "\<not> p < min_tok_len run + k"
      then have lek: "min_tok_len run + k \<le> p" by simp
      with pt have "k \<noteq> nat (ttl_len run) - min_tok_len run" by linarith
      with ex have "all_done (final run)" by simp
      then have "\<forall>n<length (eos_reached (final run)). eos_reached (final run) ! n"
        by (simp add: all_done_def list_all_length)
      with le assms(2) have "eos_reached (final run) ! r" by simp
      with f[OF assms(2)] obtain c where c: "min_tok_len run \<le> c" "c < min_tok_len run + k"
        "\<not> input_text_mask run ! r ! c" by blast
      from c(2) lek have cp: "c < p" by simp
      with assms(4) pt have cl: "c < length (prompt_toks ! r)" and ct: "c < nat (ttl_len run)" by simp_all
      from msk[OF assms(2) ct] c(3) cl have "prompt_toks ! r ! c = pad_id tokenizer" by simp
      moreover from first c(1) cp have "prompt_toks ! r ! c \<noteq> pad_id tokenizer" by blast
      ultimately show False by simp
    qed
    from v'[OF assms(3) pk] show "\<exists>cp. cur_pos (final run) = Some cp \<and> p \<le> cp" .
  qed
  from A B C show ?thesis by (intro conjI)
qed

text \<open>
  Claim C10 as stated fails at a later pad position after an early exit: with pad id 0 and
  a model that always chooses the end id 2, both rows are flagged at position 1 and the loop
  stops, so position 2 of row 1 (a pad id of the prompt \<open>[5, 0, 0]\<close>, beyond the
  minimum prompt length 1) keeps 0 and never receives the model's token 2.
\<close>

theorem pad_in_prompt_counterexample:
  "run_loop (const_model [0, 0, 1 :: int]) tok0 default_args [[5], [5, 0, 0]] (Some 2) =
     Inr \<lparr>min_tok_len = 1, max_tok_len = 3, ttl_len = 5,
          gen_toks0 = [[5, 0, 0, 0, 0], [5, 0, 0, 0, 0]],
          input_text_mask = [[True, False, False, False, False], [True, False, False, False, False]],
          final = \<lparr>gen_toks = [[5, 2, 0, 0, 0], [5, 2, 0, 0, 0]], eos_reached = [True, True],
                    cur_pos = Some 1\<rparr>\<rparr> \<and>
   [[5], [5, 0, 0 :: int]] ! 1 ! 2 = pad_id tok0 \<and>
   candidate (const_model [0, 0, 1 :: int]) [[5, 2, 0, 0, 0], [5, 2, 0, 0, 0]] 2 1 = 2 \<and>
   [[5, 2, 0, 0, 0], [5, 2, 0, 0, 0 :: int]] ! 1 ! 2 = 0"
proof -
  have h: "run_loop (const_model [0, 0, 1 :: int]) tok0 default_args [[5], [5, 0, 0]] (Some 2) =
     Inr \<lparr>min_tok_len = 1, max_tok_len = 3, ttl_len = 5,
          gen_toks0 = [[5, 0, 0, 0, 0], [5, 0, 0, 0, 0]],
          input_text_mask = [[True, False, False, False, False], [True, False, False, False, False]],
          final = \<lparr>gen_toks = [[5, 2, 0, 0, 0], [5, 2, 0, 0, 0]], eos_reached = [True, True],
                    cur_pos = Some 1\<rparr>\<rparr>"
    by code_simp
  have a: "[[5], [5, 0, 0 :: int]] ! 1 ! 2 = pad_id tok0" by (simp add: tok0_def)
  have b: "candidate (const_model [0, 0, 1 :: int]) [[5, 2, 0, 0, 0], [5, 2, 0, 0, 0]] 2 1 = 2"
    by code_simp
  have c: "[[5, 2, 0, 0, 0], [5, 2, 0, 0, 0 :: int]] ! 1 ! 2 = 0" by simp
  from h a b c show ?thesis by (intro conjI)
qed

theorem pad_in_prompt_overwritten_witness:
  "run_loop (const_model [0, 0, 1 :: int]) tok0 default_args [[5], [5, 0, 0]] (Some 2) =
     Inr \<lparr>min_tok_len = 1, max_tok_len = 3, ttl_len = 5,
          gen_toks0 = [[5, 0, 0, 0, 0], [5, 0, 0, 0, 0]],
          input_text_mask = [[True, False, False, False, False], [True, False, False, False, False]],
          final = \<lparr>gen_toks = [[5, 2, 0, 0, 0], [5, 2, 0, 0, 0]], eos_reached = [True, True],
                    cur_pos = Some 1\<rparr>\<rparr> \<and>
   [[5], [5, 0, 0 :: int]] ! 1 ! 1 = pad_id tok0 \<and>
   [[5, 2, 0, 0, 0], [5, 2, 0, 0, 0 :: int]] ! 1 ! 1 =
     candidate (const_model [0, 0, 1 :: int]) [[5, 2, 0, 0, 0], [5, 2, 0, 0, 0]] 1 1 \<and>
   [True, True] ! 1"
proof -
  let ?R = "\<lparr>min_tok_len = 1, max_tok_len = 3, ttl_len = 5,
          gen_toks0 = [[5, 0, 0, 0, 0], [5, 0, 0, 0, 0]],
          input_text_mask = [[True, False, False, False, False], [True, False, False, False, False]],
          final = \<lparr>gen_toks = [[5, 2, 0, 0, 0], [5, 2, 0, 0, 0 :: int]], eos_reached = [True, True],
                    cur_pos = Some 1\<rparr>\<rparr>"
  have h: "run_loop (const_model [0, 0, 1 :: int]) tok0 default_args [[5], [5, 0, 0]] (Some 2) = Inr ?R"
    by code_simp
  have r: "(1::nat) < length [[5], [5, 0, 0 :: int]]" by simp
  have lo: "min_tok_len ?R \<le> 1" by simp
  have pl: "(1::nat) < length ([[5], [5, 0, 0 :: int]] ! 1)" by simp
  have p: "[[5], [5, 0, 0 :: int]] ! 1 ! 1 = pad_id tok0" by (simp add: tok0_def)
  have e: "candidate (const_model [0, 0, 1 :: int]) [[5, 2, 0, 0, 0], [5, 2, 0, 0, 0]] 1 1 = eos_id tok0"
    by code_simp
  have cp: "cur_pos (final ?R) = Some 1 \<and> (1::nat) \<le> 1" by simp
  note T = pad_in_prompt_overwritten[OF h r lo pl p, THEN conjunct2, THEN conjunct1,
      THEN spec, of 1, THEN mp, OF cp]
  from T[THEN conjunct1]
  have a: "[[5, 2, 0, 0, 0], [5, 2, 0, 0, 0 :: int]] ! 1 ! 1 =
     candidate (const_model [0, 0, 1 :: int]) [[5, 2, 0, 0, 0], [5, 2, 0, 0, 0]] 1 1"
    by (simp only: gen_run.select_convs gen_state.select_convs)
  from T[THEN conjunct2, THEN mp]
  have "candidate (const_model [0, 0, 1 :: int]) [[5, 2, 0, 0, 0], [5, 2, 0, 0, 0]] 1 1 = eos_id tok0
        \<Longrightarrow> [True, True] ! 1"
    by (simp only: gen_run.select_convs gen_state.select_convs)
  from this[OF e] have b: "[True, True] ! 1" .
  from h p a b show ?thesis by (intro conjI)
qed

lemma gen_step_flags:
  assumes "gen_step model eos msk pos st = Inr st'"
    and "length msk = length (gen_toks st)" and "length (eos_reached st) = length (gen_toks st)"
    and "r < length (gen_toks st)" and "pos < length (gen_toks st ! r)"
  shows "eos_reached st' ! r = (eos_reached st ! r \<or> (\<not> msk ! r ! pos \<and> gen_toks st' ! r ! pos = eos))"
proof -
  from gen_step_Inr[OF assms(1-3)] obtain cand where
    u: "\<forall>r<length (gen_toks st). gen_toks st' ! r =
          (gen_toks st ! r)[pos := (if msk ! r ! pos then gen_toks st ! r ! pos else cand ! r)] \<and>
          eos_reached st' ! r = (eos_reached st ! r \<or> (\<not> msk ! r ! pos \<and> cand ! r = eos))"
    by blast
  with assms(4,5) show ?thesis by auto
qed

lemma gen_iter_mono:
  assumes "gen_iter model eos msk a j st = Inr s'" and "gen_iter model eos msk a i st = Inr s"
    and "i \<le> j"
    and "length msk = length (gen_toks st)" and "length (eos_reached st) = length (gen_toks st)"
    and "r < length (gen_toks st)" and "eos_reached s ! r"
  shows "eos_reached s' ! r"
  using assms(1,3)
proof (induction j arbitrary: s')
  case 0
  with assms(2,7) show ?case by simp
next
  case (Suc j)
  show ?case
  proof (cases "i = Suc j")
    case True
    with Suc.prems(1) assms(2,7) show ?thesis by simp
  next
    case False
    with Suc.prems(2) have ij: "i \<le> j" by simp
    from Suc.prems(1) obtain s0 where s0: "gen_iter model eos msk a j st = Inr s0"
      and st: "gen_step model eos msk (a + j) s0 = Inr s'" by (rule gen_iter_Suc_Inr)
    note l = gen_iter_lengths[OF s0 assms(4,5)]
    from l assms(4) have m: "length msk = length (gen_toks s0)" by simp
    from l have e: "length (eos_reached s0) = length (gen_toks s0)" by simp
    from gen_step_Inr[OF st m e] l assms(6) Suc.IH[OF s0 ij] show ?thesis by auto
  qed
qed

text \<open>
  Claim C7, as amended. The run of the loop is the sequence of states \<open>gen_iter \<dots> j\<close>
  from the initial state, whose flags are all false, to the final state after \<open>k\<close>
  iterations (at least one when the range is not empty). Each iteration sets a row's flag
  exactly when it was set before, or the token written for the row is the end id and the
  position is beyond the row's prompt or holds the pad id in the row's prompt; a flag that
  is set in one state is set in every later state; and the loop stops at the first
  iteration after which every flag is set (or at the end of the range).
\<close>

theorem eos_reached_tracking:
  assumes "run_loop model tokenizer model_args prompt_toks max_gen = Inr run"
  shows "\<exists>k\<le>nat (ttl_len run) - min_tok_len run.
           gen_iter model (eos_id tokenizer) (input_text_mask run) (min_tok_len run) k
             \<lparr>gen_toks = gen_toks0 run, eos_reached = replicate (length prompt_toks) False, cur_pos = None\<rparr>
             = Inr (final run) \<and>
           (min_tok_len run < nat (ttl_len run) \<longrightarrow> 0 < k) \<and>
           (\<forall>j<k. \<exists>s s'.
              gen_iter model (eos_id tokenizer) (input_text_mask run) (min_tok_len run) j
                \<lparr>gen_toks = gen_toks0 run, eos_reached = replicate (length prompt_toks) False, cur_pos = None\<rparr>
                = Inr s \<and>
              gen_step model (eos_id tokenizer) (input_text_mask run) (min_tok_len run + j) s = Inr s' \<and>
              (\<forall>r<length prompt_toks.
                 eos_reached s' ! r =
                   (eos_reached s ! r \<or>
                    ((length (prompt_toks ! r) \<le> min_tok_len run + j \<or>
                      prompt_toks ! r ! (min_tok_len run + j) = pad_id tokenizer) \<and>
                     gen_toks s' ! r ! (min_tok_len run + j) = eos_id tokenizer)))) \<and>
           (\<forall>i j s s'. i \<le> j \<and>
              gen_iter model (eos_id tokenizer) (input_text_mask run) (min_tok_len run) i
                \<lparr>gen_toks = gen_toks0 run, eos_reached = replicate (length prompt_toks) False, cur_pos = None\<rparr>
                = Inr s \<and>
              gen_iter model (eos_id tokenizer) (input_text_mask run) (min_tok_len run) j
                \<lparr>gen_toks = gen_toks0 run, eos_reached = replicate (length prompt_toks) False, cur_pos = None\<rparr>
                = Inr s' \<longrightarrow>
              (\<forall>r<length prompt_toks. eos_reached s ! r \<longrightarrow> eos_reached s' ! r)) \<and>
           (k = nat (ttl_len run) - min_tok_len run \<or> all_done (final run)) \<and>
           (\<forall>j. 0 < j \<and> j < k \<longrightarrow>
              (\<exists>s. gen_iter model (eos_id tokenizer) (input_text_mask run) (min_tok_len run) j
                 \<lparr>gen_toks = gen_toks0 run, eos_reached = replicate (length prompt_toks) False, cur_pos = None\<rparr>
                 = Inr s \<and> \<not> all_done s))"
proof -
  let ?init = "\<lparr>gen_toks = gen_toks0 run, eos_reached = replicate (length prompt_toks) False, cur_pos = None\<rparr>"
  let ?a = "min_tok_len run"
  let ?M = "input_text_mask run"
  let ?e = "eos_id tokenizer"
  from run_loop_trace[OF assms] obtain k where K:
    "k \<le> nat (ttl_len run) - ?a \<and>
     gen_iter model ?e ?M ?a k ?init = Inr (final run) \<and>
     (?a < nat (ttl_len run) \<longrightarrow> 0 < k) \<and>
     (k = nat (ttl_len run) - ?a \<or> all_done (final run)) \<and>
     (\<forall>j. 0 < j \<and> j < k \<longrightarrow> (\<exists>sj. gen_iter model ?e ?M ?a j ?init = Inr sj \<and> \<not> all_done sj))" ..
  note k = K[THEN conjunct1]
  note it = K[THEN conjunct2, THEN conjunct1]
  note pos = K[THEN conjunct2, THEN conjunct2, THEN conjunct1]
  note ex = K[THEN conjunct2, THEN conjunct2, THEN conjunct2, THEN conjunct1]
  note early = K[THEN conjunct2, THEN conjunct2, THEN conjunct2, THEN conjunct2]
  note sh = run_loop_shape[OF assms]
  have m: "length ?M = length (gen_toks ?init)" using sh(1,2) by simp
  have e: "length (eos_reached ?init) = length (gen_toks ?init)" using sh(1) by simp
  have b: "length (gen_toks ?init) = length prompt_toks" using sh(1) by simp
  have steps: "\<forall>j<k. \<exists>s s'.
              gen_iter model ?e ?M ?a j ?init = Inr s \<and>
              gen_step model ?e ?M (?a + j) s = Inr s' \<and>
              (\<forall>r<length prompt_toks.
                 eos_reached s' ! r =
                   (eos_reached s ! r \<or> ((length (prompt_toks ! r) \<le> ?a + j \<or> prompt_toks ! r ! (?a + j) = pad_id tokenizer) \<and>
                     gen_toks s' ! r ! (?a + j) = ?e)))"
  proof (intro allI impI)
    fix j assume j: "j < k"
    then have "Suc j \<le> k" by simp
    from gen_iter_earlier[OF it this] obtain s' where s': "gen_iter model ?e ?M ?a (Suc j) ?init = Inr s'"
      by blast
    then obtain s where s: "gen_iter model ?e ?M ?a j ?init = Inr s"
      and st: "gen_step model ?e ?M (?a + j) s = Inr s'" by (rule gen_iter_Suc_Inr)
    note l = gen_iter_lengths[OF s m e]
    from l m have ms: "length ?M = length (gen_toks s)" by simp
    from l have es: "length (eos_reached s) = length (gen_toks s)" by simp
    have "\<forall>r<length prompt_toks.
                 eos_reached s' ! r =
                   (eos_reached s ! r \<or> ((length (prompt_toks ! r) \<le> ?a + j \<or> prompt_toks ! r ! (?a + j) = pad_id tokenizer) \<and>
                     gen_toks s' ! r ! (?a + j) = ?e))"
    proof (intro allI impI)
      fix r assume r: "r < length prompt_toks"
      from r l b have rs: "r < length (gen_toks s)" by simp
      from j k have pt: "?a + j < nat (ttl_len run)" by linarith
      with l r b sh(3) have ps: "?a + j < length (gen_toks s ! r)" by simp
      have mk: "(\<not> ?M ! r ! (?a + j)) =
                  (length (prompt_toks ! r) \<le> ?a + j \<or> prompt_toks ! r ! (?a + j) = pad_id tokenizer)"
        using sh(4)[OF r pt] sh(5)[OF r pt] by auto
      from gen_step_flags[OF st ms es rs ps]
      have "eos_reached s' ! r =
              (eos_reached s ! r \<or> (\<not> ?M ! r ! (?a + j) \<and> gen_toks s' ! r ! (?a + j) = ?e))" .
      then
      show "eos_reached s' ! r =
                   (eos_reached s ! r \<or> ((length (prompt_toks ! r) \<le> ?a + j \<or> prompt_toks ! r ! (?a + j) = pad_id tokenizer) \<and>
                     gen_toks s' ! r ! (?a + j) = ?e))"
        unfolding mk .
    qed
    with s st show "\<exists>s s'.
              gen_iter model ?e ?M ?a j ?init = Inr s \<and>
              gen_step model ?e ?M (?a + j) s = Inr s' \<and>
              (\<forall>r<length prompt_toks.
                 eos_reached s' ! r =
                   (eos_reached s ! r \<or> ((length (prompt_toks ! r) \<le> ?a + j \<or> prompt_toks ! r ! (?a + j) = pad_id tokenizer) \<and>
                     gen_toks s' ! r ! (?a + j) = ?e)))" by blast
  qed
  have mono: "\<forall>i j s s'. i \<le> j \<and> gen_iter model ?e ?M ?a i ?init = Inr s \<and>
              gen_iter model ?e ?M ?a j ?init = Inr s' \<longrightarrow>
              (\<forall>r<length prompt_toks. eos_reached s ! r \<longrightarrow> eos_reached s' ! r)"
  proof (intro allI impI)
    fix i j s s' r
    assume h: "i \<le> j \<and> gen_iter model ?e ?M ?a i ?init = Inr s \<and> gen_iter model ?e ?M ?a j ?init = Inr s'"
      and r: "r < length prompt_toks" and f: "eos_reached s ! r"
    from h have ij: "i \<le> j" and s: "gen_iter model ?e ?M ?a i ?init = Inr s"
      and s': "gen_iter model ?e ?M ?a j ?init = Inr s'" by simp_all
    from r b have r0: "r < length (gen_toks ?init)" by simp
    from gen_iter_mono[OF s' s ij m e r0 f] show "eos_reached s' ! r" .
  qed
  show ?thesis
  proof (intro exI[of _ k] conjI)
    show "k \<le> nat (ttl_len run) - ?a" by (rule k)
    show "gen_iter model ?e ?M ?a k ?init = Inr (final run)" by (rule it)
    show "?a < nat (ttl_len run) \<longrightarrow> 0 < k" by (rule pos)
    show "\<forall>j<k. \<exists>s s'.
              gen_iter model ?e ?M ?a j ?init = Inr s \<and>
              gen_step model ?e ?M (?a + j) s = Inr s' \<and>
              (\<forall>r<length prompt_toks.
                 eos_reached s' ! r =
                   (eos_reached s ! r \<or> ((length (prompt_toks ! r) \<le> ?a + j \<or> prompt_toks ! r ! (?a + j) = pad_id tokenizer) \<and>
                     gen_toks s' ! r ! (?a + j) = ?e)))"
      by (rule steps)
    show "\<forall>i j s s'. i \<le> j \<and> gen_iter model ?e ?M ?a i ?init = Inr s \<and>
              gen_iter model ?e ?M ?a j ?init = Inr s' \<longrightarrow>
              (\<forall>r<length prompt_toks. eos_reached s ! r \<longrightarrow> eos_reached s' ! r)"
      by (rule mono)
    show "k = nat (ttl_len run) - ?a \<or> all_done (final run)" by (rule ex)
    show "\<forall>j. 0 < j \<and> j < k \<longrightarrow> (\<exists>sj. gen_iter model ?e ?M ?a j ?init = Inr sj \<and> \<not> all_done sj)"
      by (rule early)
  qed
qed

theorem eos_reached_tracking_witness:
  "run_loop (const_model [0, 0, 1 :: int]) tok0 default_args [[5], [5, 4]] (Some 2) =
     Inr \<lparr>min_tok_len = 1, max_tok_len = 2, ttl_len = 4,
          gen_toks0 = [[5, 0, 0, 0], [5, 4, 0, 0]],
          input_text_mask = [[True, False, False, False], [True, True, False, False]],
          final = \<lparr>gen_toks = [[5, 2, 2, 0], [5, 4, 2, 0]], eos_reached = [True, True],
                    cur_pos = Some 2\<rparr>\<rparr> \<and>
   (\<exists>k\<le>nat 4 - 1. gen_iter (const_model [0, 0, 1 :: int]) (eos_id tok0)
             [[True, False, False, False], [True, True, False, False]] 1 k
             \<lparr>gen_toks = [[5, 0, 0, 0], [5, 4, 0, 0]],
              eos_reached = replicate (length [[5], [5, 4 :: int]]) False, cur_pos = None\<rparr>
           = Inr \<lparr>gen_toks = [[5, 2, 2, 0], [5, 4, 2, 0]], eos_reached = [True, True],
                    cur_pos = Some 2\<rparr>)"
proof -
  let ?R = "\<lparr>min_tok_len = 1, max_tok_len = 2, ttl_len = 4,
          gen_toks0 = [[5, 0, 0, 0], [5, 4, 0, 0]],
          input_text_mask = [[True, False, False, False], [True, True, False, False]],
          final = \<lparr>gen_toks = [[5, 2, 2, 0], [5, 4, 2, 0 :: int]], eos_reached = [True, True],
                    cur_pos = Some 2\<rparr>\<rparr>"
  have h: "run_loop (const_model [0, 0, 1 :: int]) tok0 default_args [[5], [5, 4]] (Some 2) = Inr ?R"
    by code_simp
  from eos_reached_tracking[OF h] obtain k where K:
    "k \<le> nat (ttl_len ?R) - min_tok_len ?R \<and>
     gen_iter (const_model [0, 0, 1 :: int]) (eos_id tok0) (input_text_mask ?R) (min_tok_len ?R) k
             \<lparr>gen_toks = gen_toks0 ?R,
              eos_reached = replicate (length [[5], [5, 4 :: int]]) False, cur_pos = None\<rparr>
           = Inr (final ?R)"
    by (elim exE conjE) (rule that, rule conjI)
  then have "\<exists>k\<le>nat (ttl_len ?R) - min_tok_len ?R.
     gen_iter (const_model [0, 0, 1 :: int]) (eos_id tok0) (input_text_mask ?R) (min_tok_len ?R) k
             \<lparr>gen_toks = gen_toks0 ?R,
              eos_reached = replicate (length [[5], [5, 4 :: int]]) False, cur_pos = None\<rparr>
           = Inr (final ?R)"
    by (intro exI[of _ k])
  then have "\<exists>k\<le>nat 4 - 1. gen_iter (const_model [0, 0, 1 :: int]) (eos_id tok0)
             [[True, False, False, False], [True, True, False, False]] 1 k
             \<lparr>gen_toks = [[5, 0, 0, 0], [5, 4, 0, 0]],
              eos_reached = replicate (length [[5], [5, 4 :: int]]) False, cur_pos = None\<rparr>
           = Inr \<lparr>gen_toks = [[5, 2, 2, 0], [5, 4, 2, 0]], eos_reached = [True, True],
                    cur_pos = Some 2\<rparr>"
    by (simp only: gen_run.select_convs)
  with h show ?thesis by (rule conjI)
qed

text \<open>
  Claim C7 as stated fails where a prompt holds the pad id: with pad id 0 and a model that
  always chooses the end id 2, row 1 with the prompt \<open>[7, 0, 6]\<close> is flagged by the
  iteration at position 1, where it is still in-prompt (1 < 3); that iteration is the only
  one that runs.
\<close>

theorem eos_flag_counterexample:
  "run_loop (const_model [0, 0, 1 :: int]) tok0 default_args [[7], [7, 0, 6]] (Some 1) =
     Inr \<lparr>min_tok_len = 1, max_tok_len = 3, ttl_len = 4,
          gen_toks0 = [[7, 0, 0, 0], [7, 0, 6, 0]],
          input_text_mask = [[True, False, False, False], [True, False, True, False]],
          final = \<lparr>gen_toks = [[7, 2, 0, 0], [7, 2, 6, 0]], eos_reached = [True, True],
                    cur_pos = Some 1\<rparr>\<rparr> \<and>
   (1 :: nat) < length ([[7], [7, 0, 6 :: int]] ! 1)"
proof -
  have h: "run_loop (const_model [0, 0, 1 :: int]) tok0 default_args [[7], [7, 0, 6]] (Some 1) =
     Inr \<lparr>min_tok_len = 1, max_tok_len = 3, ttl_len = 4,
          gen_toks0 = [[7, 0, 0, 0], [7, 0, 6, 0]],
          input_text_mask = [[True, False, False, False], [True, False, True, False]],
          final = \<lparr>gen_toks = [[7, 2, 0, 0], [7, 2, 6, 0]], eos_reached = [True, True],
                    cur_pos = Some 1\<rparr>\<rparr>"
    by code_simp
  have a: "(1 :: nat) < length ([[7], [7, 0, 6 :: int]] ! 1)" by simp
  from h a show ?thesis by (rule conjI)
qed

lemma take_py_index: "take (py_index xs v) xs = takeWhile (\<lambda>t. t \<noteq> v) xs"
  by (induction xs) auto

lemma py_slice_nonneg:
  assumes "0 \<le> g"
  shows "py_slice xs (int p) (int p + g) = take (nat g) (drop p xs)"
proof -
  have a: "py_bound (length xs) (int p) = min (length xs) p" by (simp add: py_bound_def)
  have b: "py_bound (length xs) (int p + g) = min (length xs) (p + nat g)"
    using assms by (simp add: py_bound_def nat_add_distrib)
  show ?thesis
  proof (cases "p \<le> length xs")
    case True
    then have "min (length xs) (p + nat g) - min (length xs) p = min (length xs - p) (nat g)" by auto
    with True show ?thesis unfolding py_slice_def a b
      by (simp add: min_def take_all_iff)
  next
    case False
    then show ?thesis unfolding py_slice_def a b by simp
  qed
qed

lemma py_slice_Nil: "py_slice [] a b = []"
  by (simp add: py_slice_def)

lemma post_row_eq:
  assumes "0 \<le> g \<or> toks = []"
  shows "post_row eos g prompt toks =
           takeWhile (\<lambda>t. t \<noteq> eos) (take (nat g) (drop (length prompt) toks))"
proof -
  have s: "py_slice toks (int (length prompt)) (int (length prompt) + g) = take (nat g) (drop (length prompt) toks)"
    using assms py_slice_nonneg[of g toks "length prompt"] by (auto simp: py_slice_Nil)
  have "post_row eos g prompt toks = takeWhile (\<lambda>t. t \<noteq> eos) (py_slice toks (int (length prompt)) (int (length prompt) + g))"
  proof (cases "eos \<in> set (py_slice toks (int (length prompt)) (int (length prompt) + g))")
    case True
    then show ?thesis by (simp add: post_row_def Let_def take_py_index)
  next
    case False
    then have tw: "takeWhile (\<lambda>t. t \<noteq> eos) (py_slice toks (int (length prompt)) (int (length prompt) + g))
               = py_slice toks (int (length prompt)) (int (length prompt) + g)"
      by (auto simp: takeWhile_eq_all_conv)
    show ?thesis by (simp only: post_row_def Let_def False if_False tw)
  qed
  with s show ?thesis by simp
qed

lemma run_loop_neg_cap:
  assumes "run_loop model tokenizer model_args prompt_toks max_gen = Inr run"
    and "gen_len model_args max_gen < 0"
  shows "ttl_len run = 0"
proof -
  note I = run_loop_Inr[OF assms(1)]
  note sh = run_loop_shape[OF assms(1)]
  from I(1) have "Max (length ` set prompt_toks) \<in> length ` set prompt_toks" by (intro Max_in) auto
  then obtain r where r: "r < length prompt_toks" "length (prompt_toks ! r) = max_tok_len run"
    unfolding I(3) by (auto simp: in_set_conv_nth)
  from I(4) assms(2) have "ttl_len run < int (max_tok_len run)" by simp
  with I(5) have "\<not> max_tok_len run \<le> nat (ttl_len run)" by linarith
  with sh(6)[OF r(1)] r(2) show ?thesis by simp
qed

text \<open>
  Claim C5. Every row of the result of \<^verbatim>\<open>generate\<close> is the slice of the final
  buffer row from the prompt length up to prompt length plus \<^verbatim>\<open>max_gen_len\<close>, cut
  before the first end id in that slice; with a cap of 10 and the first end id at index 3
  of the generated part, the returned row has length 3.
\<close>

theorem generate_returns_truncated_slice:
  assumes "generate model tokenizer model_args prompt_toks max_gen = Inr out"
  shows "\<exists>run. run_loop model tokenizer model_args prompt_toks max_gen = Inr run \<and>
           length out = length prompt_toks \<and>
           (\<forall>i<length prompt_toks.
              out ! i = takeWhile (\<lambda>t. t \<noteq> eos_id tokenizer)
                          (take (nat (gen_len model_args max_gen))
                             (drop (length (prompt_toks ! i)) (gen_toks (final run) ! i))) \<and>
              (gen_len model_args max_gen = 10 \<and>
               3 < length (drop (length (prompt_toks ! i)) (gen_toks (final run) ! i)) \<and>
               drop (length (prompt_toks ! i)) (gen_toks (final run) ! i) ! 3 = eos_id tokenizer \<and>
               eos_id tokenizer \<notin> set (take 3 (drop (length (prompt_toks ! i)) (gen_toks (final run) ! i)))
               \<longrightarrow> length (out ! i) = 3))"
proof -
  from assms obtain run where run: "run_loop model tokenizer model_args prompt_toks max_gen = Inr run"
    and out: "out = map (\<lambda>(toks, prompt). post_row (eos_id tokenizer) (gen_len model_args max_gen) prompt toks)
                 (zip (gen_toks (final run)) prompt_toks)"
    by (auto simp: generate_def split: sum.splits)
  from run_loop_cells[OF run] obtain k where K:
    "k \<le> nat (ttl_len run) - min_tok_len run \<and>
           cur_pos (final run) = (if k = 0 then None else Some (min_tok_len run + k - 1)) \<and>
           (min_tok_len run < nat (ttl_len run) \<longrightarrow> 0 < k) \<and>
           (k = nat (ttl_len run) - min_tok_len run \<or> all_done (final run)) \<and>
           length (gen_toks (final run)) = length prompt_toks \<and>
           length (eos_reached (final run)) = length prompt_toks \<and>
           (\<forall>r<length prompt_toks. length (gen_toks (final run) ! r) = nat (ttl_len run)) \<and>
           (\<forall>r<length prompt_toks. \<forall>c. c < min_tok_len run \<or> min_tok_len run + k \<le> c \<longrightarrow>
              gen_toks (final run) ! r ! c = gen_toks0 run ! r ! c) \<and>
           (\<forall>c. min_tok_len run \<le> c \<and> c < min_tok_len run + k \<longrightarrow>
              (\<exists>cand. candidates model (gen_toks (final run)) c = Inr cand) \<and>
              (\<forall>r<length prompt_toks.
                 gen_toks (final run) ! r ! c =
                   (if input_text_mask run ! r ! c then gen_toks0 run ! r ! c
                    else candidate model (gen_toks (final run)) c r))) \<and>
           (\<forall>r<length prompt_toks. eos_reached (final run) ! r =
              (\<exists>c. min_tok_len run \<le> c \<and> c < min_tok_len run + k \<and> \<not> input_text_mask run ! r ! c \<and>
                   candidate model (gen_toks (final run)) c r = eos_id tokenizer))" ..
  note K4 = K[THEN conjunct2, THEN conjunct2, THEN conjunct2, THEN conjunct2]
  note lf = K4[THEN conjunct1]
  note rows = K4[THEN conjunct2, THEN conjunct2, THEN conjunct1]
  have len: "length out = length prompt_toks" using out lf by simp
  have each: "\<forall>i<length prompt_toks.
              out ! i = takeWhile (\<lambda>t. t \<noteq> eos_id tokenizer)
                          (take (nat (gen_len model_args max_gen))
                             (drop (length (prompt_toks ! i)) (gen_toks (final run) ! i))) \<and>
              (gen_len model_args max_gen = 10 \<and>
               3 < length (drop (length (prompt_toks ! i)) (gen_toks (final run) ! i)) \<and>
               drop (length (prompt_toks ! i)) (gen_toks (final run) ! i) ! 3 = eos_id tokenizer \<and>
               eos_id tokenizer \<notin> set (take 3 (drop (length (prompt_toks ! i)) (gen_toks (final run) ! i)))
               \<longrightarrow> length (out ! i) = 3)"
  proof (intro allI impI)
    fix i assume i: "i < length prompt_toks"
    let ?row = "gen_toks (final run) ! i"
    let ?d = "drop (length (prompt_toks ! i)) ?row"
    let ?e = "eos_id tokenizer"
    have c: "0 \<le> gen_len model_args max_gen \<or> ?row = []"
    proof (cases "0 \<le> gen_len model_args max_gen")
      case True then show ?thesis by simp
    next
      case False
      then have "ttl_len run = 0" using run_loop_neg_cap[OF run] by simp
      with rows[THEN spec, of i] i show ?thesis by simp
    qed
    have o: "out ! i = takeWhile (\<lambda>t. t \<noteq> ?e) (take (nat (gen_len model_args max_gen)) ?d)"
      using i lf post_row_eq[OF c] by (simp add: out)
    have p: "gen_len model_args max_gen = 10 \<and> 3 < length ?d \<and> ?d ! 3 = ?e \<and> ?e \<notin> set (take 3 ?d)
               \<longrightarrow> length (out ! i) = 3"
    proof
      assume a: "gen_len model_args max_gen = 10 \<and> 3 < length ?d \<and> ?d ! 3 = ?e \<and> ?e \<notin> set (take 3 ?d)"
      then have l: "3 < length ?d" and e3: "?d ! 3 = ?e" and ne: "?e \<notin> set (take 3 ?d)" by simp_all
      have d: "?d = take 3 ?d @ ?e # drop 4 ?d"
        using l e3 by (metis Cons_nth_drop_Suc append_take_drop_id eval_nat_numeral(2) semiring_norm(26,27))
      have "take 10 ?d = take 3 ?d @ ?e # take 6 (drop 4 ?d)"
        using l by (subst d) (simp add: min_def)
      moreover have "takeWhile (\<lambda>t. t \<noteq> ?e) (take 3 ?d @ ?e # take 6 (drop 4 ?d))
                     = take 3 ?d @ takeWhile (\<lambda>t. t \<noteq> ?e) (?e # take 6 (drop 4 ?d))"
        using ne by (intro takeWhile_append2) auto
      ultimately have "takeWhile (\<lambda>t. t \<noteq> ?e) (take 10 ?d) = take 3 ?d"
        by simp
      with o a l show "length (out ! i) = 3" by simp
    qed
    from o p show "out ! i = takeWhile (\<lambda>t. t \<noteq> ?e) (take (nat (gen_len model_args max_gen)) ?d) \<and>
              (gen_len model_args max_gen = 10 \<and> 3 < length ?d \<and> ?d ! 3 = ?e \<and> ?e \<notin> set (take 3 ?d)
               \<longrightarrow> length (out ! i) = 3)" ..
  qed
  from run len each show ?thesis by (intro exI[of _ run] conjI)
qed

theorem generate_returns_truncated_slice_witness:
  "generate (eos_after 5) tok0 default_args [[1, 3]] (Some 10) = Inr [[3, 3, 3]] \<and>
   gen_len default_args (Some 10) = 10 \<and>
   drop (length ([[1, 3 :: int]] ! 0)) [1, 3, 3, 3, 3, 2, 0, 0, 0, 0, 0, 0 :: int] ! 3 = eos_id tok0 \<and>
   length ([[3, 3, 3 :: int]] ! 0) = 3"
proof -
  let ?R = "\<lparr>min_tok_len = 2, max_tok_len = 2, ttl_len = 12,
          gen_toks0 = [[1, 3, 0, 0, 0, 0, 0, 0, 0, 0, 0, 0]],
          input_text_mask = [[True, True, False, False, False, False, False, False, False, False,
                              False, False]],
          final = \<lparr>gen_toks = [[1, 3, 3, 3, 3, 2, 0, 0, 0, 0, 0, 0 :: int]], eos_reached = [True],
                    cur_pos = Some 5\<rparr>\<rparr>"
  let ?d = "drop (length ([[1, 3 :: int]] ! 0)) [1, 3, 3, 3, 3, 2, 0, 0, 0, 0, 0, 0 :: int]"
  have h: "generate (eos_after 5) tok0 default_args [[1, 3]] (Some 10) = Inr [[3, 3, 3]]"
    by code_simp
  have r: "run_loop (eos_after 5) tok0 default_args [[1, 3]] (Some 10) = Inr ?R"
    by code_simp
  have g: "gen_len default_args (Some 10) = 10" by (simp add: gen_len_def)
  have l: "3 < length ?d" by simp
  have e: "?d ! 3 = eos_id tok0" by (simp add: tok0_def)
  have n: "eos_id tok0 \<notin> set (take 3 ?d)" by (simp add: tok0_def)
  have i: "(0::nat) < length [[1, 3 :: int]]" by simp
  from generate_returns_truncated_slice[OF h] obtain run where
    T: "run_loop (eos_after 5) tok0 default_args [[1, 3]] (Some 10) = Inr run \<and>
        length [[3, 3, 3 :: int]] = length [[1, 3 :: int]] \<and>
        (\<forall>i<length [[1, 3 :: int]].
              [[3, 3, 3 :: int]] ! i = takeWhile (\<lambda>t. t \<noteq> eos_id tok0)
                          (take (nat (gen_len default_args (Some 10)))
                             (drop (length ([[1, 3 :: int]] ! i)) (gen_toks (final run) ! i))) \<and>
              (gen_len default_args (Some 10) = 10 \<and>
               3 < length (drop (length ([[1, 3 :: int]] ! i)) (gen_toks (final run) ! i)) \<and>
               drop (length ([[1, 3 :: int]] ! i)) (gen_toks (final run) ! i) ! 3 = eos_id tok0 \<and>
               eos_id tok0 \<notin> set (take 3 (drop (length ([[1, 3 :: int]] ! i)) (gen_toks (final run) ! i)))
               \<longrightarrow> length ([[3, 3, 3 :: int]] ! i) = 3))" ..
  from T[THEN conjunct1] r have run: "run = ?R" by simp
  have row: "gen_toks (final run) ! 0 = [1, 3, 3, 3, 3, 2, 0, 0, 0, 0, 0, 0]"
    by (simp only: run gen_run.select_convs gen_state.select_convs nth_Cons_0)
  note P = T[THEN conjunct2, THEN conjunct2, THEN spec, of 0, THEN mp, OF i, THEN conjunct2,
             unfolded row]
  from g l e n have "gen_len default_args (Some 10) = 10 \<and> 3 < length ?d \<and> ?d ! 3 = eos_id tok0 \<and>
                     eos_id tok0 \<notin> set (take 3 ?d)" by (intro conjI)
  with P have "length ([[3, 3, 3 :: int]] ! 0) = 3" by (rule mp)
  with h g e show ?thesis by (intro conjI)
qed

section \<open>Properties of model construction\<close>

subsection \<open>Rounding\<close>








subsection \<open>Construction succeeds\<close>
















section \<open>Properties of the rotary encoding\<close>

subsection \<open>Offsets and indices\<close>

lemma valid_index_length: "valid_index sh idx \<Longrightarrow> length idx = length sh"
  by (simp add: valid_index_def list_all2_lengthD)

lemma valid_index_Cons:
  "valid_index (d # sh) idx \<longleftrightarrow> (\<exists>i rest. idx = i # rest \<and> i < d \<and> valid_index sh rest)"
  by (auto simp: valid_index_def list_all2_Cons2)

lemma valid_index_Nil: "valid_index [] idx \<longleftrightarrow> idx = []"
  by (simp add: valid_index_def)

lemma ravel_less: "valid_index sh idx \<Longrightarrow> ravel sh idx < prod_list sh"
proof (induction sh arbitrary: idx)
  case Nil
  then show ?case by (simp add: valid_index_Nil)
next
  case (Cons d sh)
  then obtain i rest where idx: "idx = i # rest" and i: "i < d" and r: "valid_index sh rest"
    by (auto simp: valid_index_Cons)
  from Cons.IH[OF r] have "ravel sh rest < prod_list sh" .
  then have "i * prod_list sh + ravel sh rest < (i + 1) * prod_list sh" by simp
  also from i have "(i + 1) * prod_list sh \<le> d * prod_list sh"
    by (intro mult_le_mono1) simp
  finally show ?case by (simp add: idx)
qed

lemma unravel_ravel: "valid_index sh idx \<Longrightarrow> unravel sh (ravel sh idx) = idx"
proof (induction sh arbitrary: idx)
  case Nil
  then show ?case by (simp add: valid_index_Nil)
next
  case (Cons d sh)
  then obtain i rest where idx: "idx = i # rest" and i: "i < d" and r: "valid_index sh rest"
    by (auto simp: valid_index_Cons)
  from ravel_less[OF r] have lt: "ravel sh rest < prod_list sh" .
  with Cons.IH[OF r] show ?case by (simp add: idx)
qed

lemma ravel_unravel: "n < prod_list sh \<Longrightarrow> ravel sh (unravel sh n) = n"
proof (induction sh arbitrary: n)
  case Nil
  then show ?case by simp
next
  case (Cons d sh)
  from Cons.prems have pos: "0 < prod_list sh" by (cases "prod_list sh = 0") simp_all
  then have "n mod prod_list sh < prod_list sh" by simp
  from Cons.IH[OF this] show ?case by simp
qed

lemma valid_unravel: "n < prod_list sh \<Longrightarrow> valid_index sh (unravel sh n)"
proof (induction sh arbitrary: n)
  case Nil
  then show ?case by (simp add: valid_index_Nil)
next
  case (Cons d sh)
  from Cons.prems have pos: "0 < prod_list sh" by (cases "prod_list sh = 0") simp_all
  then have m: "n mod prod_list sh < prod_list sh" by simp
  from Cons.prems have "n < d * prod_list sh" by simp
  then have "n div prod_list sh < d" using pos by (simp add: less_mult_imp_div_less)
  with Cons.IH[OF m] show ?case by (simp add: valid_index_Cons)
qed

lemma offset_div_mod:
  fixes r :: nat
  assumes "r < p"
  shows "(i * p + r) div p = i" and "(i * p + r) mod p = r"
  using assms by simp_all

lemma unravel_flattened:
  assumes "valid_index (pre @ [prod_list rest]) idx"
  shows "unravel (pre @ rest) (ravel (pre @ [prod_list rest]) idx) =
           take (length pre) idx @ unravel rest (idx ! length pre)"
  using assms
proof (induction pre arbitrary: idx)
  case Nil
  then obtain j where "idx = [j]" by (auto simp: valid_index_Cons valid_index_Nil)
  then show ?case by simp
next
  case (Cons d pre)
  then obtain i tl where idx: "idx = i # tl" and i: "i < d"
    and r: "valid_index (pre @ [prod_list rest]) tl"
    by (auto simp: valid_index_Cons)
  from ravel_less[OF r] have lt: "ravel (pre @ [prod_list rest]) tl < prod_list pre * prod_list rest"
    by simp
  from offset_div_mod[OF lt] Cons.IH[OF r] show ?case by (simp add: idx)
qed

subsection \<open>Shapes along \<^verbatim>\<open>apply_rotary_emb\<close>\<close>

lemma reshape_pairs_Inr:
  assumes "reshape_pairs x = Inr y"
  shows "shape x \<noteq> []" and "even (last (shape x))" and "prod_list (butlast (shape x)) \<noteq> 0"
    and "shape y = butlast (shape x) @ [last (shape x) div 2, 2]"
    and "entry y = (\<lambda>idx. entry x (unravel (shape x) (ravel (shape y) idx)))"
proof -
  let ?P = "prod_list (butlast (shape x))"
  from assms have k: "?P * 2 \<noteq> 0" and m: "prod_list (shape x) mod (?P * 2) = 0"
    and y: "y = \<lparr>shape = butlast (shape x) @ [prod_list (shape x) div (?P * 2), 2],
                 entry = (\<lambda>idx. entry x (unravel (shape x)
                    (ravel (butlast (shape x) @ [prod_list (shape x) div (?P * 2), 2]) idx)))\<rparr>"
    by (auto simp: reshape_pairs_def Let_def split: if_splits)
  from k show P: "?P \<noteq> 0" by simp
  show ne: "shape x \<noteq> []"
  proof
    assume "shape x = []"
    with m show False by simp
  qed
  then have "shape x = butlast (shape x) @ [last (shape x)]" by simp
  then have "prod_list (shape x) = prod_list (butlast (shape x) @ [last (shape x)])" by simp
  then have pr: "prod_list (shape x) = ?P * last (shape x)" by simp
  from m have "(?P * last (shape x)) mod (?P * 2) = 0" unfolding pr .
  then have "?P * (last (shape x) mod 2) = 0" by (simp only: mod_mult_mult1)
  with P show ev: "even (last (shape x))" by (simp add: even_iff_mod_2_eq_zero)
  from P have dv: "prod_list (shape x) div (?P * 2) = last (shape x) div 2"
    unfolding pr by (rule div_mult_mult1)
  from y dv show "shape y = butlast (shape x) @ [last (shape x) div 2, 2]" by simp
  from y show "entry y = (\<lambda>idx. entry x (unravel (shape x) (ravel (shape y) idx)))" by simp
qed

lemma pairs_as_complex_Inr:
  assumes "pairs_as_complex x = Inr y"
  shows "shape x \<noteq> []" and "even (last (shape x))" and "prod_list (butlast (shape x)) \<noteq> 0"
    and "shape y = butlast (shape x) @ [last (shape x) div 2]"
    and "entry y = (\<lambda>idx. Complex
            (entry x (unravel (shape x) (ravel (shape y @ [2]) (idx @ [0]))))
            (entry x (unravel (shape x) (ravel (shape y @ [2]) (idx @ [1])))))"
proof -
  from assms obtain r where r: "reshape_pairs x = Inr r" and v: "view_as_complex r = Inr y"
    by (auto simp: pairs_as_complex_def split: sum.splits)
  note R = reshape_pairs_Inr[OF r]
  from R(1) show "shape x \<noteq> []" .
  from R(2) show "even (last (shape x))" .
  from R(3) show "prod_list (butlast (shape x)) \<noteq> 0" .
  from v have y: "y = \<lparr>shape = butlast (shape r),
       entry = (\<lambda>idx. Complex (entry r (idx @ [0])) (entry r (idx @ [1])))\<rparr>"
    by (auto simp: view_as_complex_def split: if_splits)
  from y R(4) show sh: "shape y = butlast (shape x) @ [last (shape x) div 2]"
    by (simp add: butlast_append)
  from sh R(4) have sr: "shape r = shape y @ [2]" by simp
  from y have ey: "entry y = (\<lambda>idx. Complex (entry r (idx @ [0])) (entry r (idx @ [1])))"
    by simp
  show "entry y = (\<lambda>idx. Complex
            (entry x (unravel (shape x) (ravel (shape y @ [2]) (idx @ [0]))))
            (entry x (unravel (shape x) (ravel (shape y @ [2]) (idx @ [1])))))"
    unfolding ey R(5) sr ..
qed

lemma reshape_for_broadcast_Inr:
  assumes "reshape_for_broadcast fc x = Inr f"
  shows "1 < length (shape x)" and "shape fc = [shape x ! 1, last (shape x)]"
    and "shape f = map (\<lambda>(i, d). if i = 1 \<or> i = length (shape x) - 1 then d else 1)
                     (enumerate 0 (shape x))"
    and "entry f = (\<lambda>idx. entry fc (unravel (shape fc) (ravel (shape f) idx)))"
  using assms
  by (auto simp: reshape_for_broadcast_def view_def Let_def split: if_splits)

lemma broadcast_rev_length:
  "broadcast_rev xs ys = Inr zs \<Longrightarrow> length zs = max (length xs) (length ys)"
proof (induction xs ys arbitrary: zs rule: broadcast_rev.induct)
  case (1 ys)
  then show ?case by simp
next
  case (2 x xs)
  then show ?case by auto
next
  case (3 x xs y ys)
  from "3.prems" obtain ws where w: "broadcast_rev xs ys = Inr ws" and z: "length zs = Suc (length ws)"
    by (auto split: if_splits sum.splits)
  from "3.prems" have c: "x = y \<or> y = 1 \<or> x = 1" by (auto split: if_splits)
  have "length ws = max (length xs) (length ys)"
  proof (cases "x = y \<or> y = 1")
    case True
    from "3.IH"(1)[OF True w] show ?thesis .
  next
    case False
    with c have x1: "x = 1" by simp
    from "3.IH"(2)[OF False x1 w] show ?thesis .
  qed
  with z show ?case by simp
qed

lemma broadcast_shapes_length:
  "broadcast_shapes a b = Inr sh \<Longrightarrow> length sh = max (length a) (length b)"
  by (auto simp: broadcast_shapes_def split: sum.splits dest: broadcast_rev_length)

lemma rotate_Inr:
  assumes "rotate x f = Inr y"
  obtains sh where "broadcast_shapes (shape x) (shape f) = Inr sh" and "3 \<le> length sh"
    and "shape y = take 3 sh @ [prod_list (drop 3 sh) * 2]"
    and "entry y = (\<lambda>idx. entry (view_as_real \<lparr>shape = sh,
               entry = (\<lambda>c. entry x (broadcast_index (shape x) c) *
                             entry f (broadcast_index (shape f) c))\<rparr>)
             (unravel (sh @ [2]) (ravel (shape y) idx)))"
proof -
  from assms obtain p where p: "mul_tensor x f = Inr p" and fl: "flatten_from 3 (view_as_real p) = Inr y"
    by (auto simp: rotate_def split: sum.splits)
  from p obtain sh where sh: "broadcast_shapes (shape x) (shape f) = Inr sh"
    and pe: "p = \<lparr>shape = sh,
               entry = (\<lambda>c. entry x (broadcast_index (shape x) c) *
                             entry f (broadcast_index (shape f) c))\<rparr>"
    by (auto simp: mul_tensor_def split: sum.splits)
  have sr: "shape (view_as_real p) = sh @ [2]" by (simp add: view_as_real_def pe)
  from fl have l: "3 < length (sh @ [2])"
    and ye: "y = \<lparr>shape = take 3 (sh @ [2]) @ [prod_list (drop 3 (sh @ [2]))],
         entry = (\<lambda>idx. entry (view_as_real p) (unravel (sh @ [2])
                   (ravel (take 3 (sh @ [2]) @ [prod_list (drop 3 (sh @ [2]))]) idx)))\<rparr>"
    by (auto simp: flatten_from_def Let_def sr split: if_splits)
  from l have l3: "3 \<le> length sh" by simp
  from ye l3 have ys: "shape y = take 3 sh @ [prod_list (drop 3 sh) * 2]" by simp
  from ye have "entry y = (\<lambda>idx. entry (view_as_real p) (unravel (sh @ [2]) (ravel (shape y) idx)))"
    by simp
  with pe have "entry y = (\<lambda>idx. entry (view_as_real \<lparr>shape = sh,
               entry = (\<lambda>c. entry x (broadcast_index (shape x) c) *
                             entry f (broadcast_index (shape f) c))\<rparr>)
             (unravel (sh @ [2]) (ravel (shape y) idx)))" by simp
  with sh l3 ys show thesis by (rule that)
qed

lemma apply_rotary_emb_Inr:
  assumes "apply_rotary_emb xq xk fc = Inr (q', k')"
  obtains xqc xkc fcb where "pairs_as_complex xq = Inr xqc" and "pairs_as_complex xk = Inr xkc"
    and "reshape_for_broadcast fc xqc = Inr fcb" and "rotate xqc fcb = Inr q'"
    and "rotate xkc fcb = Inr k'"
  using assms by (auto simp: apply_rotary_emb_def split: sum.splits)

lemma apply_rotary_emb_shapes:
  assumes "apply_rotary_emb xq xk fc = Inr r"
  shows "3 \<le> length (shape xq)" and "shape fc = [shape xq ! 1, last (shape xq) div 2]"
proof -
  obtain q' k' where r: "r = (q', k')" by (cases r)
  from assms[unfolded r] obtain xqc xkc fcb where a: "pairs_as_complex xq = Inr xqc"
    and b: "reshape_for_broadcast fc xqc = Inr fcb" and c: "rotate xqc fcb = Inr q'"
    by (rule apply_rotary_emb_Inr)
  note A = pairs_as_complex_Inr[OF a]
  note B = reshape_for_broadcast_Inr[OF b]
  from A(1) A(4) have len: "length (shape xqc) = length (shape xq)" by (cases "shape xq") simp_all
  from B(3) have lf: "length (shape fcb) = length (shape xqc)" by simp
  from c obtain sh where s: "broadcast_shapes (shape xqc) (shape fcb) = Inr sh" and l: "3 \<le> length sh"
    by (rule rotate_Inr)
  from broadcast_shapes_length[OF s] lf have "length sh = length (shape xqc)" by simp
  with l len show n: "3 \<le> length (shape xq)" by simp
  then have "1 < length (butlast (shape xq))" by simp
  then have "shape xqc ! 1 = shape xq ! 1" by (simp add: A(4) nth_append nth_butlast)
  moreover have "last (shape xqc) = last (shape xq) div 2" by (simp add: A(4))
  ultimately show "shape fc = [shape xq ! 1, last (shape xq) div 2]" using B(2) by simp
qed

text \<open>
  Claim C8. Applying the rotary encoding raises whenever the position dimension of the
  table differs from the sequence dimension of the query (dimension 1) or its angle
  dimension differs from the trailing complex-pair dimension of the query (half its last
  dimension); it returns a result only when the table has exactly these two dimensions.
\<close>

theorem rotary_table_shape_contract:
  "(shape fc ! 0 \<noteq> shape xq ! 1 \<or> shape fc ! 1 \<noteq> last (shape xq) div 2 \<longrightarrow>
      isl (apply_rotary_emb xq xk fc)) \<and>
   (\<forall>r. apply_rotary_emb xq xk fc = Inr r \<longrightarrow>
      3 \<le> length (shape xq) \<and> shape fc = [shape xq ! 1, last (shape xq) div 2])"
proof -
  have b: "\<forall>r. apply_rotary_emb xq xk fc = Inr r \<longrightarrow>
      3 \<le> length (shape xq) \<and> shape fc = [shape xq ! 1, last (shape xq) div 2]"
    using apply_rotary_emb_shapes by blast
  have a: "shape fc ! 0 \<noteq> shape xq ! 1 \<or> shape fc ! 1 \<noteq> last (shape xq) div 2 \<longrightarrow>
      isl (apply_rotary_emb xq xk fc)"
  proof (intro impI)
    assume m: "shape fc ! 0 \<noteq> shape xq ! 1 \<or> shape fc ! 1 \<noteq> last (shape xq) div 2"
    show "isl (apply_rotary_emb xq xk fc)"
    proof (cases "apply_rotary_emb xq xk fc")
      case (Inl e)
      then show ?thesis by simp
    next
      case (Inr r)
      from apply_rotary_emb_shapes(2)[OF Inr] m show ?thesis by simp
    qed
  qed
  from a b show ?thesis by (rule conjI)
qed

theorem rotary_table_shape_contract_witness:
  "isl (apply_rotary_emb (iota [1, 2, 2, 4]) (iota [1, 2, 2, 4]) (unit_table [2, 3])) \<and>
   isl (apply_rotary_emb (iota [1, 2, 2, 4]) (iota [1, 2, 2, 4]) (unit_table [3, 2])) \<and>
   \<not> isl (apply_rotary_emb (iota [1, 2, 2, 4]) (iota [1, 2, 2, 4]) (unit_table [2, 2])) \<and>
   shape (unit_table [2, 2]) = [shape (iota [1, 2, 2, 4]) ! 1, last (shape (iota [1, 2, 2, 4])) div 2]"
proof -
  let ?x = "iota [1, 2, 2, 4]"
  have m1: "shape (unit_table [2, 3]) ! 0 \<noteq> shape ?x ! 1 \<or>
            shape (unit_table [2, 3]) ! 1 \<noteq> last (shape ?x) div 2"
    by (simp add: unit_table_def iota_def)
  have m2: "shape (unit_table [3, 2]) ! 0 \<noteq> shape ?x ! 1 \<or>
            shape (unit_table [3, 2]) ! 1 \<noteq> last (shape ?x) div 2"
    by (simp add: unit_table_def iota_def)
  have ok: "\<not> isl (apply_rotary_emb ?x ?x (unit_table [2, 2]))"
    by (simp add: apply_rotary_emb_def pairs_as_complex_def reshape_pairs_def view_as_complex_def reshape_for_broadcast_def view_def rotate_def mul_tensor_def broadcast_shapes_def flatten_from_def view_as_real_def Let_def unit_table_def iota_def)
  then obtain r where r: "apply_rotary_emb ?x ?x (unit_table [2, 2]) = Inr r"
    by (cases "apply_rotary_emb ?x ?x (unit_table [2, 2])") simp_all
  from rotary_table_shape_contract[of "unit_table [2, 3]" ?x ?x, THEN conjunct1, rule_format, OF m1]
  have a: "isl (apply_rotary_emb ?x ?x (unit_table [2, 3]))" .
  from rotary_table_shape_contract[of "unit_table [3, 2]" ?x ?x, THEN conjunct1, rule_format, OF m2]
  have b: "isl (apply_rotary_emb ?x ?x (unit_table [3, 2]))" .
  from rotary_table_shape_contract[of "unit_table [2, 2]" ?x ?x, THEN conjunct2, rule_format, OF r]
  have c: "shape (unit_table [2, 2]) = [shape ?x ! 1, last (shape ?x) div 2]" by (rule conjunct2)
  from a b ok c show ?thesis by (intro conjI)
qed

subsection \<open>Position zero\<close>

lemma broadcast_rev_same:
  "list_all2 (\<lambda>x y. y = x \<or> y = 1) xs ys \<Longrightarrow> broadcast_rev xs ys = Inr xs"
proof (induction xs ys rule: list_all2_induct)
  case Nil
  then show ?case by simp
next
  case (Cons x xs y ys)
  then show ?case by auto
qed

lemma broadcast_shapes_same:
  assumes "list_all2 (\<lambda>x y. y = x \<or> y = 1) a b"
  shows "broadcast_shapes a b = Inr a"
proof -
  from assms have "list_all2 (\<lambda>x y. y = x \<or> y = 1) (rev a) (rev b)" by simp
  from broadcast_rev_same[OF this] show ?thesis by (simp add: broadcast_shapes_def)
qed

lemma broadcast_view_shape:
  "list_all2 (\<lambda>x y. y = x \<or> y = 1) sx
     (map (\<lambda>(i, d). if i = 1 \<or> i = n then d else 1) (enumerate 0 sx))"
  by (simp add: list_all2_conv_all_nth nth_enumerate_eq)

lemma broadcast_index_valid: "valid_index sh idx \<Longrightarrow> broadcast_index sh idx = idx"
proof -
  assume v: "valid_index sh idx"
  then have l: "length idx = length sh" by (rule valid_index_length)
  have "map (\<lambda>(d, i). if d = 1 then 0 else i) (zip sh idx) = idx"
  proof (rule nth_equalityI)
    show "length (map (\<lambda>(d, i). if d = 1 then 0 else i) (zip sh idx)) = length idx"
      by (simp add: l)
  next
    fix i assume "i < length (map (\<lambda>(d, i). if d = 1 then 0 else i) (zip sh idx))"
    then have i: "i < length idx" by simp
    with v have "idx ! i < sh ! i" by (simp add: valid_index_def list_all2_conv_all_nth)
    with i l show "map (\<lambda>(d, i). if d = 1 then 0 else i) (zip sh idx) ! i = idx ! i" by auto
  qed
  with l show ?thesis by (simp add: broadcast_index_def)
qed

lemma valid_index_snoc:
  "valid_index (sh @ [d]) u \<longleftrightarrow> (\<exists>c e. u = c @ [e] \<and> valid_index sh c \<and> e < d)"
proof
  assume "valid_index (sh @ [d]) u"
  then obtain c vs where "u = c @ vs" and "list_all2 (\<lambda>i d. i < d) c sh"
    and "list_all2 (\<lambda>i d. i < d) vs [d]"
    by (auto simp: valid_index_def list_all2_append2)
  then show "\<exists>c e. u = c @ [e] \<and> valid_index sh c \<and> e < d"
    by (auto simp: valid_index_def list_all2_Cons2)
next
  assume "\<exists>c e. u = c @ [e] \<and> valid_index sh c \<and> e < d"
  then show "valid_index (sh @ [d]) u"
    by (auto simp: valid_index_def intro: list_all2_appendI)
qed

lemma ones_middle:
  "2 \<le> k \<Longrightarrow> k + length mid \<le> n \<Longrightarrow>
   map (\<lambda>(i, d). if i = 1 \<or> i = n then d else 1) (enumerate k mid) = replicate (length mid) 1"
proof (induction mid arbitrary: k)
  case Nil
  then show ?case by simp
next
  case (Cons m mid)
  from Cons.prems have "2 \<le> Suc k" "Suc k + length mid \<le> n" by simp_all
  from Cons.IH[OF this] Cons.prems show ?case by simp
qed

lemma zeros_middle:
  "length cm = k \<Longrightarrow>
   map (\<lambda>(d, i). if d = 1 then 0 else i) (zip (replicate k (1 :: nat)) cm) = replicate k (0 :: nat)"
proof (induction cm arbitrary: k)
  case Nil
  then show ?case by simp
next
  case (Cons c cm)
  then obtain k' where k: "k = Suc k'" and l: "length cm = k'" by (cases k) auto
  from Cons.IH[OF l] show ?case by (simp add: k)
qed

lemma prod_list_ones: "prod_list (replicate k (Suc 0) @ [l]) = l"
  by (induction k) simp_all

lemma ravel_ones: "ravel (replicate k (Suc 0) @ [l]) (replicate k 0 @ [t]) = t"
  by (induction k) simp_all

lemma table_row_zero:
  assumes n: "3 \<le> length sx" and v: "valid_index sx c" and c1: "c ! 1 = 0"
  shows "ravel (map (\<lambda>(i, d). if i = 1 \<or> i = length sx - 1 then d else 1) (enumerate 0 sx))
           (broadcast_index
              (map (\<lambda>(i, d). if i = 1 \<or> i = length sx - 1 then d else 1) (enumerate 0 sx)) c)
         < last sx"
proof -
  let ?f = "\<lambda>(i, d). if i = 1 \<or> i = length sx - 1 then d else (1 :: nat)"
  let ?g = "\<lambda>(d :: nat, i :: nat). if d = 1 then 0 else i"
  from n obtain a b rest where sx: "sx = a # b # rest" and rne: "rest \<noteq> []"
    by (cases sx; cases "tl sx"; cases "tl (tl sx)") auto
  define mid where "mid = butlast rest"
  define l where "l = last rest"
  from rne have rest: "rest = mid @ [l]" by (simp add: mid_def l_def)
  have sx': "sx = a # b # mid @ [l]" by (simp add: sx rest)
  from v obtain c0 c1' crest where c: "c = c0 # c1' # crest" and vr: "valid_index (mid @ [l]) crest"
    by (auto simp: sx' valid_index_Cons)
  from vr obtain cm cl where cr: "crest = cm @ [cl]" and vm: "valid_index mid cm" and cl: "cl < l"
    by (auto simp: valid_index_snoc)
  from c1 c have z: "c1' = 0" by simp
  have lm: "length cm = length mid" using vm by (rule valid_index_length)
  have len: "length sx - 1 = length mid + 2" by (simp add: sx')
  have len3: "length sx = length mid + 3" by (simp add: sx')
  have mids: "map ?f (enumerate 2 mid) = replicate (length mid) 1"
    unfolding len by (rule ones_middle) simp_all
  have "enumerate 0 sx = (0, a) # (1, b) # enumerate 2 mid @ [(length mid + 2, l)]"
    by (simp add: sx' enumerate_append_eq numeral_2_eq_2)
  then have "map ?f (enumerate 0 sx) =
      ?f (0, a) # ?f (1, b) # map ?f (enumerate 2 mid) @ [?f (length mid + 2, l)]"
    by (simp only: list.map map_append)
  then have sv: "map ?f (enumerate 0 sx) = 1 # b # replicate (length mid) 1 @ [l]"
    unfolding mids by (simp add: len3)
  have zs: "map ?g (zip (replicate (length mid) 1) cm) = replicate (length mid) 0"
    using lm by (rule zeros_middle)
  have "broadcast_index (1 # b # replicate (length mid) 1 @ [l]) c =
      map ?g (zip (1 # b # replicate (length mid) 1 @ [l]) (c0 # c1' # cm @ [cl]))"
    by (simp add: broadcast_index_def c cr lm)
  also have "\<dots> = ?g (1, c0) # ?g (b, c1') # map ?g (zip (replicate (length mid) 1) cm) @ [?g (l, cl)]"
    by (simp add: lm)
  also have "\<dots> = 0 # 0 # replicate (length mid) 0 @ [if l = 1 then 0 else cl]"
    unfolding zs by (simp add: z)
  finally have bi: "broadcast_index (1 # b # replicate (length mid) 1 @ [l]) c =
      0 # 0 # replicate (length mid) 0 @ [if l = 1 then 0 else cl]" .
  have "ravel (1 # b # replicate (length mid) 1 @ [l])
          (0 # 0 # replicate (length mid) 0 @ [if l = 1 then 0 else cl]) =
        (if l = 1 then 0 else cl)"
    by (simp add: ravel_ones)
  moreover have "(if l = 1 then 0 else cl) < l" using cl by simp
  moreover have "last sx = l" by (simp add: sx')
  ultimately show ?thesis unfolding sv bi by simp
qed

lemma rotate_position_zero:
  assumes px: "pairs_as_complex x = Inr xc"
    and rb: "reshape_for_broadcast fc xqc = Inr fcb"
    and same: "shape xc = shape xqc"
    and rot: "rotate xc fcb = Inr y"
    and row0: "\<forall>j < shape fc ! 1. entry fc [0, j] = 1"
  shows "prod_list (shape y) = prod_list (shape x)"
    and "length (shape x) = 4 \<Longrightarrow> shape y = shape x"
    and "valid_index (shape y) idx \<Longrightarrow> idx ! 1 = 0 \<Longrightarrow>
           entry y idx = entry x (unravel (shape x) (ravel (shape y) idx))"
proof -
  let ?sx = "shape xc"
  let ?sv = "map (\<lambda>(i, d). if i = 1 \<or> i = length ?sx - 1 then d else 1) (enumerate 0 ?sx)"
  note A = pairs_as_complex_Inr[OF px]
  note B = reshape_for_broadcast_Inr[OF rb, folded same]
  from rot obtain sh where bs: "broadcast_shapes ?sx (shape fcb) = Inr sh" and l3: "3 \<le> length sh"
    and ys: "shape y = take 3 sh @ [prod_list (drop 3 sh) * 2]"
    and ye: "entry y = (\<lambda>idx. entry (view_as_real \<lparr>shape = sh,
               entry = (\<lambda>c. entry xc (broadcast_index ?sx c) *
                             entry fcb (broadcast_index (shape fcb) c))\<rparr>)
             (unravel (sh @ [2]) (ravel (shape y) idx)))"
    by (rule rotate_Inr)
  have "broadcast_shapes ?sx ?sv = Inr ?sx"
    by (rule broadcast_shapes_same) (rule broadcast_view_shape)
  with bs B(3) have sh: "sh = ?sx" by simp
  from l3 sh have n3: "3 \<le> length ?sx" by simp
  let ?S = "?sx @ [2]"
  let ?pre = "take 3 ?sx"
  let ?rest = "drop 3 ?sx @ [2]"
  have S: "?S = ?pre @ ?rest" by simp
  have lp: "length ?pre = 3" using n3 by simp
  have ys': "shape y = ?pre @ [prod_list ?rest]" by (simp add: ys sh)
  have py: "prod_list (shape y) = prod_list ?S"
  proof -
    have "prod_list (shape y) = prod_list ?pre * prod_list ?rest" by (simp add: ys')
    also have "\<dots> = prod_list (?pre @ ?rest)" by simp
    also have "\<dots> = prod_list ?S" by (simp only: S[symmetric])
    finally show ?thesis .
  qed
  from A(1) have dx: "shape x = butlast (shape x) @ [last (shape x)]" by simp
  from A(2) have ev: "last (shape x) div 2 * 2 = last (shape x)" by simp
  have "prod_list ?S = prod_list (butlast (shape x)) * (last (shape x) div 2 * 2)"
    by (simp add: A(4))
  also have "\<dots> = prod_list (butlast (shape x) @ [last (shape x)])" by (simp add: ev)
  also have "\<dots> = prod_list (shape x)" using dx by simp
  finally have pS: "prod_list ?S = prod_list (shape x)" .
  from py pS show "prod_list (shape y) = prod_list (shape x)" by simp
  show "shape y = shape x" if r4: "length (shape x) = 4"
  proof -
    from r4 obtain a b c d where x4: "shape x = [a, b, c, d]"
      by (cases "shape x"; cases "tl (shape x)"; cases "tl (tl (shape x))";
          cases "tl (tl (tl (shape x)))") auto
    from A(4) have "?sx = [a, b, c, d div 2]" by (simp add: x4)
    with ys sh have "shape y = [a, b, c, d div 2 * 2]" by simp
    with ev x4 show ?thesis by simp
  qed
  show "entry y idx = entry x (unravel (shape x) (ravel (shape y) idx))"
    if v: "valid_index (shape y) idx" and p0: "idx ! 1 = 0"
  proof -
    define m where "m = ravel (shape y) idx"
    define u where "u = unravel ?S m"
    from ravel_less[OF v] py have mS: "m < prod_list ?S" by (simp add: m_def)
    from valid_unravel[OF mS] have vu: "valid_index ?S u" by (simp add: u_def)
    from ravel_unravel[OF mS] have ru: "ravel ?S u = m" by (simp add: u_def)
    from v have v': "valid_index (?pre @ [prod_list ?rest]) idx" by (simp only: ys')
    have "u = unravel (?pre @ ?rest) (ravel (?pre @ [prod_list ?rest]) idx)"
      by (simp only: u_def m_def ys' S[symmetric])
    also have "\<dots> = take (length ?pre) idx @ unravel ?rest (idx ! length ?pre)"
      using v' by (rule unravel_flattened)
    finally have ue: "u = take 3 idx @ unravel ?rest (idx ! 3)" by (simp only: lp)
    from valid_index_length[OF v] n3 have li: "length idx = 4" by (simp add: ys')
    from ue li have u1: "u ! 1 = idx ! 1" by (simp add: nth_append)
    from vu obtain c e where uc: "u = c @ [e]" and vc: "valid_index ?sx c" and e2: "e < 2"
      by (auto simp: valid_index_snoc)
    from valid_index_length[OF vc] n3 have lc: "1 < length c" by simp
    with uc u1 p0 have c1: "c ! 1 = 0" by (simp add: nth_append)
    have t: "ravel ?sv (broadcast_index ?sv c) < last ?sx"
      using n3 vc c1 by (rule table_row_zero)
    have fcs: "shape fc = [?sx ! 1, last ?sx]" by (rule B(2))
    then have f1: "shape fc ! 1 = last ?sx" by simp
    define t' where "t' = ravel ?sv (broadcast_index ?sv c)"
    from t have t'l: "t' < last ?sx" by (simp add: t'_def)
    then have "unravel [?sx ! 1, last ?sx] t' = [0, t']" by simp
    moreover from row0 t'l f1 have "entry fc [0, t'] = 1" by simp
    ultimately have tab: "entry fc (unravel (shape fc) t') = 1" by (simp only: fcs)
    have "entry fcb (broadcast_index (shape fcb) c) = entry fc (unravel (shape fc) t')"
      by (simp only: B(4) B(3) t'_def)
    with tab have one: "entry fcb (broadcast_index (shape fcb) c) = 1" by simp
    have bx: "broadcast_index ?sx c = c" using vc by (rule broadcast_index_valid)
    have "entry y idx = entry (view_as_real \<lparr>shape = sh,
               entry = (\<lambda>c. entry xc (broadcast_index ?sx c) *
                             entry fcb (broadcast_index (shape fcb) c))\<rparr>) u"
      by (simp only: ye u_def m_def sh)
    also have "\<dots> = (if e = 0 then Re (entry xc c) else Im (entry xc c))"
      by (simp add: view_as_real_def uc bx one)
    also have "\<dots> = entry x (unravel (shape x) (ravel ?S u))"
    proof (cases "e = 0")
      case True
      then show ?thesis by (simp add: A(5) uc)
    next
      case False
      with e2 have "e = 1" by simp
      then show ?thesis by (simp add: A(5) uc)
    qed
    finally show ?thesis by (simp only: ru m_def)
  qed
qed

lemma precompute_freqs_cis_row_zero:
  assumes "precompute_freqs_cis d n_pos theta = Inr table"
  shows "entry table (0 # idx) = cis 0" and "shape table = [nat n_pos, nat (d div 2)]"
  using assms by (auto simp: precompute_freqs_cis_def split: if_splits)

lemma take_rows_Inr:
  assumes "take_rows n x = Inr y"
  shows "entry y = entry x" and "shape y = min n (hd (shape x)) # tl (shape x)"
  using assms by (auto simp: take_rows_def split: list.splits)

text \<open>
  Claim C9. In the table that \<^verbatim>\<open>precompute_freqs_cis\<close> computes (with its base
  \<open>10000\<close>), every entry of row 0 is the unit complex number of angle zero. Hence, whenever
  \<^verbatim>\<open>apply_rotary_emb\<close> returns on the first rows of the table (\<^verbatim>\<open>freqs_cis[:seqlen]\<close>), the query at position 0
  (index 0 in dimension 1) is returned unchanged: every element of the result at position
  0 is the element of the query at the same row-major offset, and for a query of four
  dimensions \<open>(bsz, seqlen, n_heads, head_dim)\<close> the result has the shape of the query and
  the same elements at position 0. The same holds for the key when it has the shape of
  the query, as in \<^verbatim>\<open>Attention.forward\<close>. Elements are reals.
\<close>

theorem rotary_identity_at_position_zero:
  assumes T: "precompute_freqs_cis d n_pos 10000 = Inr table"
    and S: "take_rows seqlen table = Inr fc"
    and R: "apply_rotary_emb xq xk fc = Inr (q', k')"
  shows "(\<forall>j. valid_index (shape table) [0, j] \<longrightarrow> entry table [0, j] = cis 0) \<and>
         (\<forall>idx. valid_index (shape q') idx \<and> idx ! 1 = 0 \<longrightarrow>
            entry q' idx = entry xq (unravel (shape xq) (ravel (shape q') idx))) \<and>
         (length (shape xq) = 4 \<longrightarrow>
            shape q' = shape xq \<and>
            (\<forall>idx. valid_index (shape xq) idx \<and> idx ! 1 = 0 \<longrightarrow> entry q' idx = entry xq idx)) \<and>
         (shape xk = shape xq \<longrightarrow>
            (\<forall>idx. valid_index (shape k') idx \<and> idx ! 1 = 0 \<longrightarrow>
               entry k' idx = entry xk (unravel (shape xk) (ravel (shape k') idx))) \<and>
            (length (shape xk) = 4 \<longrightarrow>
               shape k' = shape xk \<and>
               (\<forall>idx. valid_index (shape xk) idx \<and> idx ! 1 = 0 \<longrightarrow> entry k' idx = entry xk idx)))"
proof -
  from R obtain xqc xkc fcb where pq: "pairs_as_complex xq = Inr xqc"
    and pk: "pairs_as_complex xk = Inr xkc"
    and rb: "reshape_for_broadcast fc xqc = Inr fcb"
    and rq: "rotate xqc fcb = Inr q'" and rk: "rotate xkc fcb = Inr k'"
    by (rule apply_rotary_emb_Inr)
  have row: "entry table (0 # idx) = cis 0" for idx
    using T by (rule precompute_freqs_cis_row_zero(1))
  then have row0: "\<forall>j < shape fc ! 1. entry fc [0, j] = 1"
    by (simp add: take_rows_Inr(1)[OF S])
  have a: "\<forall>j. valid_index (shape table) [0, j] \<longrightarrow> entry table [0, j] = cis 0"
    using row by simp
  note Q = rotate_position_zero[OF pq rb refl rq row0]
  have b: "\<forall>idx. valid_index (shape q') idx \<and> idx ! 1 = 0 \<longrightarrow>
            entry q' idx = entry xq (unravel (shape xq) (ravel (shape q') idx))"
    using Q(3) by blast
  have c: "length (shape xq) = 4 \<longrightarrow>
            shape q' = shape xq \<and>
            (\<forall>idx. valid_index (shape xq) idx \<and> idx ! 1 = 0 \<longrightarrow> entry q' idx = entry xq idx)"
  proof (intro impI conjI allI)
    assume r4: "length (shape xq) = 4"
    from Q(2)[OF r4] show s: "shape q' = shape xq" .
    fix idx assume v: "valid_index (shape xq) idx \<and> idx ! 1 = 0"
    then have "entry q' idx = entry xq (unravel (shape xq) (ravel (shape q') idx))"
      using Q(3)[of idx] by (simp add: s)
    also have "\<dots> = entry xq idx" using v by (simp add: s unravel_ravel)
    finally show "entry q' idx = entry xq idx" .
  qed
  have d: "shape xk = shape xq \<longrightarrow>
            (\<forall>idx. valid_index (shape k') idx \<and> idx ! 1 = 0 \<longrightarrow>
               entry k' idx = entry xk (unravel (shape xk) (ravel (shape k') idx))) \<and>
            (length (shape xk) = 4 \<longrightarrow>
               shape k' = shape xk \<and>
               (\<forall>idx. valid_index (shape xk) idx \<and> idx ! 1 = 0 \<longrightarrow> entry k' idx = entry xk idx))"
  proof (intro impI)
    assume e: "shape xk = shape xq"
    have same: "shape xkc = shape xqc"
      by (simp only: pairs_as_complex_Inr(4)[OF pk] pairs_as_complex_Inr(4)[OF pq] e)
    note K = rotate_position_zero[OF pk rb same rk row0]
    have k1: "\<forall>idx. valid_index (shape k') idx \<and> idx ! 1 = 0 \<longrightarrow>
               entry k' idx = entry xk (unravel (shape xk) (ravel (shape k') idx))"
      using K(3) by blast
    have k2: "length (shape xk) = 4 \<longrightarrow>
               shape k' = shape xk \<and>
               (\<forall>idx. valid_index (shape xk) idx \<and> idx ! 1 = 0 \<longrightarrow> entry k' idx = entry xk idx)"
    proof (intro impI conjI allI)
      assume r4: "length (shape xk) = 4"
      from K(2)[OF r4] show s: "shape k' = shape xk" .
      fix idx assume v: "valid_index (shape xk) idx \<and> idx ! 1 = 0"
      then have "entry k' idx = entry xk (unravel (shape xk) (ravel (shape k') idx))"
        using K(3)[of idx] by (simp add: s)
      also have "\<dots> = entry xk idx" using v by (simp add: s unravel_ravel)
      finally show "entry k' idx = entry xk idx" .
    qed
    from k1 k2 show "(\<forall>idx. valid_index (shape k') idx \<and> idx ! 1 = 0 \<longrightarrow>
               entry k' idx = entry xk (unravel (shape xk) (ravel (shape k') idx))) \<and>
            (length (shape xk) = 4 \<longrightarrow>
               shape k' = shape xk \<and>
               (\<forall>idx. valid_index (shape xk) idx \<and> idx ! 1 = 0 \<longrightarrow> entry k' idx = entry xk idx))"
      by (rule conjI)
  qed
  from a b c d show ?thesis by (intro conjI)
qed

theorem rotary_identity_at_position_zero_witness:
  "precompute_freqs_cis 4 4 10000 = Inr rot_table \<and>
   take_rows 2 rot_table = Inr rot_rows \<and>
   \<not> isl (apply_rotary_emb (iota [1, 2, 1, 4]) (iota [1, 2, 1, 4]) rot_rows) \<and>
   valid_index (shape rot_table) [0, 1] \<and> entry rot_table [0, 1] = cis 0 \<and>
   length (shape (iota [1, 2, 1, 4])) = 4 \<and>
   valid_index (shape (iota [1, 2, 1, 4])) [0, 0, 0, 3] \<and> [0, 0, 0, 3] ! 1 = (0 :: nat) \<and>
   entry (fst (projr (apply_rotary_emb (iota [1, 2, 1, 4]) (iota [1, 2, 1, 4]) rot_rows)))
     [0, 0, 0, 3] = entry (iota [1, 2, 1, 4]) [0, 0, 0, 3] \<and>
   entry (snd (projr (apply_rotary_emb (iota [1, 2, 1, 4]) (iota [1, 2, 1, 4]) rot_rows)))
     [0, 0, 0, 3] = entry (iota [1, 2, 1, 4]) [0, 0, 0, 3]"
proof -
  let ?x = "iota [1, 2, 1, 4]"
  let ?r = "apply_rotary_emb ?x ?x rot_rows"
  have T: "precompute_freqs_cis 4 4 10000 = Inr rot_table"
    by (simp add: rot_table_def precompute_freqs_cis_def)
  have ts: "shape rot_table = [4, 2]"
    using precompute_freqs_cis_row_zero(2)[OF T] by simp
  have S: "take_rows 2 rot_table = Inr rot_rows"
    by (simp add: rot_rows_def take_rows_def ts)
  have rs: "shape rot_rows = [2, 2]"
    using take_rows_Inr(2)[OF S] by (simp add: ts)
  have ok: "\<not> isl ?r"
    by (simp add: apply_rotary_emb_def pairs_as_complex_def reshape_pairs_def view_as_complex_def reshape_for_broadcast_def view_def rotate_def mul_tensor_def broadcast_shapes_def flatten_from_def view_as_real_def Let_def rs iota_def)
  then have R: "?r = Inr (fst (projr ?r), snd (projr ?r))"
    by (cases ?r) simp_all
  note W = rotary_identity_at_position_zero[OF T S R]
  have v1: "valid_index (shape rot_table) [0, 1]" by (simp add: ts valid_index_def)
  have l4: "length (shape ?x) = 4" by (simp add: iota_def)
  have v2: "valid_index (shape ?x) [0, 0, 0, 3] \<and> [0, 0, 0, 3] ! 1 = (0 :: nat)"
    by (simp add: iota_def valid_index_def)
  from W[THEN conjunct1, rule_format, OF v1] have a: "entry rot_table [0, 1] = cis 0" .
  from W[THEN conjunct2, THEN conjunct2, THEN conjunct1, rule_format, OF l4, THEN conjunct2,
      rule_format, OF v2]
  have q: "entry (fst (projr ?r)) [0, 0, 0, 3] = entry ?x [0, 0, 0, 3]" .
  from W[THEN conjunct2, THEN conjunct2, THEN conjunct2, rule_format, OF refl, THEN conjunct2,
      rule_format, OF l4, THEN conjunct2, rule_format, OF v2]
  have k: "entry (snd (projr ?r)) [0, 0, 0, 3] = entry ?x [0, 0, 0, 3]" .
  from T S ok v1 a l4 v2 q k show ?thesis by (intro conjI) simp_all
qed

end
